theory Spec2Isabelle
  imports Complex_Main "HOL-Library.AList"
begin

section \<open>Text: the part of Python's \<open>str\<close> the analyser uses\<close>

text \<open>
  Texts are modelled as \<^typ>\<open>string\<close>, with each \<^typ>\<open>char\<close> read as the Unicode code
  point of the same number (0 to 255, i.e. Latin-1). On that range \<open>str.lower\<close> maps
  \<open>A-Z\<close> and the upper-case letters \<open>U+00C0\<close> to \<open>U+00DE\<close> (without the multiplication
  sign \<open>U+00D7\<close>) 32 places up, the regular-expression class \<open>\s\<close> and \<open>str.strip\<close>
  recognise the twelve white-space code points listed in \<open>is_space\<close>, and \<open>\d\<close> recognises
  \<open>0-9\<close> only.
\<close>

definition lower_char :: "char \<Rightarrow> char" where
  "lower_char c =
     (let n = (of_char c :: nat)
      in if (65 \<le> n \<and> n \<le> 90) \<or> (192 \<le> n \<and> n \<le> 222 \<and> n \<noteq> 215)
         then char_of (n + 32) else c)"

definition lower :: "string \<Rightarrow> string" where
  "lower s = map lower_char s"

definition is_space :: "char \<Rightarrow> bool" where
  "is_space c = ((of_char c :: nat) \<in> {9, 10, 11, 12, 13, 28, 29, 30, 31, 32, 133, 160})"

definition is_digit :: "char \<Rightarrow> bool" where
  "is_digit c = (48 \<le> (of_char c :: nat) \<and> (of_char c :: nat) \<le> 57)"

text \<open>\<open>str.startswith\<close> with one prefix, and with the tuple of the two URL schemes.\<close>

definition startswith :: "string \<Rightarrow> string \<Rightarrow> bool" where
  "startswith s p = (take (length p) s = p)"

definition has_scheme :: "string \<Rightarrow> bool" where
  "has_scheme v = (startswith v ''http://'' \<or> startswith v ''https://'')"

text \<open>\<open>str.strip()\<close>: white space removed at both ends.\<close>

definition strip :: "string \<Rightarrow> string" where
  "strip s = rev (dropWhile is_space (rev (dropWhile is_space s)))"

text \<open>\<open>int(s)\<close> on a string of decimal digits; Python's integers are unbounded.\<close>

definition digit_val :: "char \<Rightarrow> int" where
  "digit_val c = int (of_char c) - 48"

definition int_of_digits :: "string \<Rightarrow> int" where
  "int_of_digits ds = foldl (\<lambda>acc c. 10 * acc + digit_val c) 0 ds"

section \<open>Regular expressions: backtracking search as in Python's \<open>re\<close>\<close>

text \<open>
  The patterns of the analyser use literals, alternation, an optional group, capturing
  groups and repetition of one character class. \<open>rmatch\<close> lists the ways a pattern can
  match at the front of the input in the order the backtracking matcher tries them
  (greedy repetition longest first, lazy repetition shortest first, alternatives left to
  right); a state is the list of groups captured so far and the input left. \<open>re_search\<close>
  takes the first way at the leftmost start position, as \<open>re.search\<close> does, and returns
  the captured groups. \<open>AnyChar\<close> is \<open>.\<close> under \<open>re.DOTALL\<close>. The groups of these patterns
  are not nested, so a group is appended when it closes and the list is in the order of
  the group numbers.
\<close>

datatype cclass = Digit | Space | ColonSpace | AnyChar

fun in_class :: "cclass \<Rightarrow> char \<Rightarrow> bool" where
  "in_class Digit c = is_digit c"
| "in_class Space c = is_space c"
| "in_class ColonSpace c = (c = CHR '':'' \<or> is_space c)"
| "in_class AnyChar c = True"

datatype regex =
    Lit string
  | Star cclass
  | Plus cclass
  | LazyStar cclass
  | Seq regex regex
  | Alt regex regex
  | Opt regex
  | Group regex

definition run :: "cclass \<Rightarrow> string \<Rightarrow> nat" where
  "run k s = length (takeWhile (in_class k) s)"

fun rmatch :: "regex \<Rightarrow> string list \<times> string \<Rightarrow> (string list \<times> string) list" where
  "rmatch (Lit l) (g, s) = (if startswith s l then [(g, drop (length l) s)] else [])"
| "rmatch (Star k) (g, s) = map (\<lambda>n. (g, drop n s)) (rev [0 ..< Suc (run k s)])"
| "rmatch (Plus k) (g, s) = map (\<lambda>n. (g, drop n s)) (rev [1 ..< Suc (run k s)])"
| "rmatch (LazyStar k) (g, s) = map (\<lambda>n. (g, drop n s)) [0 ..< Suc (run k s)]"
| "rmatch (Seq a b) st = concat (map (rmatch b) (rmatch a st))"
| "rmatch (Alt a b) st = rmatch a st @ rmatch b st"
| "rmatch (Opt a) st = rmatch a st @ [st]"
| "rmatch (Group a) (g, s) =
     map (\<lambda>(g', r). (g' @ [take (length s - length r) s], r)) (rmatch a (g, s))"

fun re_search :: "regex \<Rightarrow> string \<Rightarrow> string list option" where
  "re_search r [] = (case rmatch r ([], []) of (g, _) # _ \<Rightarrow> Some g | [] \<Rightarrow> None)"
| "re_search r (c # cs) =
     (case rmatch r ([], c # cs) of (g, _) # _ \<Rightarrow> Some g | [] \<Rightarrow> re_search r cs)"

text \<open>\<open>match.group(n)\<close> for \<open>n \<ge> 1\<close>.\<close>

definition group :: "string list \<Rightarrow> nat \<Rightarrow> string" where
  "group g n = g ! (n - 1)"

section \<open>Results of agents and of a whole analysis\<close>

text \<open>
  The dataclasses \<open>AgentResult\<close> and \<open>SEOAnalysisResult\<close>. A Python \<open>dict\<close> keeps its
  keys in insertion order and a second assignment to a key replaces the value in place:
  it is an association list written with \<open>AList.update\<close> and read with \<open>map_of\<close>.
\<close>

record AgentResult =
  agent_name :: string
  success :: bool
  result :: string
  duration_ms :: int
  error :: "string option"

record SEOAnalysisResult =
  url :: string
  request_id :: string
  agent_results :: "(string \<times> AgentResult) list"
  final_report :: "string option"
  pdf_path :: "string option"
  overall_score :: int
  total_duration_ms :: int
  status :: string

section \<open>Score extraction in the orchestrator\<close>

text \<open>The pattern \<^verbatim>\<open>score[:\s]+(\d+)\<close> of \<open>analyze_website\<close>.\<close>

definition score_pattern :: regex where
  "score_pattern = Seq (Lit ''score'') (Seq (Plus ColonSpace) (Group (Plus Digit)))"

text \<open>
  The body of the loop over the agent results: the text is lower-cased, searched, and
  the first group converted with \<open>int\<close>; no match leaves the score list as it is.
\<close>

definition extract_score :: "string \<Rightarrow> int option" where
  "extract_score text =
     (case re_search score_pattern (lower text) of
        None \<Rightarrow> None
      | Some g \<Rightarrow> Some (int_of_digits (group g 1)))"

fun collect_scores :: "AgentResult list \<Rightarrow> int list" where
  "collect_scores [] = []"
| "collect_scores (r # rs) =
     (if success r
      then (case extract_score (result r) of
              Some n \<Rightarrow> n # collect_scores rs
            | None \<Rightarrow> collect_scores rs)
      else collect_scores rs)"

text \<open>\<open>sum(scores) // len(scores)\<close> when the list is not empty, else the default 0.\<close>

definition overall_of :: "int list \<Rightarrow> int" where
  "overall_of scores = (if scores \<noteq> [] then sum_list scores div int (length scores) else 0)"

section \<open>The durable store\<close>

text \<open>
  The SQLite tables \<open>analysis_requests\<close> and \<open>analysis_logs\<close> of \<open>DatabaseClient\<close>,
  rows keyed by \<open>unique_identifier\<close>; the time-stamp columns are reduced to whether
  \<open>completed_at\<close> has been set. Every method runs in one transaction that is rolled
  back when it raises, so a call that raises leaves the store as it was.

  Two fields are history variables of a run, kept in this record because it is the
  state that every function of the run passes on: \<open>status_writes\<close> lists, oldest first,
  every committed write of a row's \<open>status\<close> column, and \<open>runner_calls\<close> lists the
  invocations of \<open>Runner.run_async\<close>, each with the agent's name, the prompt and the
  session.
\<close>

datatype details = UrlDetail string | ResultLength nat | ErrorDetail string

record agent_summary =
  sum_success :: bool
  sum_duration_ms :: int
  sum_error :: "string option"

record analysis_summary =
  sum_agent_results :: "(string \<times> agent_summary) list"
  sum_overall_score :: int
  sum_total_duration_ms :: int

record request_row =
  col_website_url :: string
  col_status :: string
  col_completed_at :: bool
  col_analysis_result :: "analysis_summary option"
  col_report_markdown :: "string option"
  col_error_message :: "string option"

record log_row =
  log_request_id :: string
  log_agent_name :: string
  log_action :: string
  log_details :: "details option"
  log_duration_ms :: "int option"

type_synonym task = "string \<times> string \<times> string"

record database =
  analysis_requests :: "(string \<times> request_row) list"
  analysis_logs :: "log_row list"
  status_writes :: "(string \<times> string) list"
  runner_calls :: "task list"

section \<open>The environment of a run\<close>

text \<open>
  Everything outside the repository is an oracle of the run. What a call raises is the
  sum's \<open>Inl\<close>. The handlers of the analyser are all \<open>except Exception\<close>, so two kinds of
  exception are told apart, each with its text \<open>str(e)\<close>: \<open>Exception m\<close> is an instance of
  \<open>Exception\<close>, which these handlers catch, and \<open>CancelledError m\<close> is
  \<open>asyncio.CancelledError\<close>, a \<open>BaseException\<close> that is not an \<open>Exception\<close> and that no
  handler of the analyser catches. The awaited calls, the runner and the session
  service, can raise either kind. (\<open>KeyboardInterrupt\<close> and \<open>SystemExit\<close>, which stop the
  event loop itself, and the cancellation from outside of the task that runs the
  analysis are not modelled: the runs considered are those that no one cancels as a
  whole.) The store and the PDF generator are ordinary calls
  into \<open>sqlite3\<close> and the PDF library, whose errors are instances of \<open>Exception\<close>: their
  oracles give the message only.

  A call of the store raises when the oracle says so for its arguments (\<open>update_fault\<close>
  by the status written, \<open>log_fault\<close> by agent and action); \<open>runner_out\<close> is what
  \<open>Runner.run_async\<close> does for an agent, a session and a prompt: it raises, or yields
  events; \<open>pdf_out\<close> is \<open>generate_report_pdf\<close>. The remaining fields are the readings
  of \<open>time.time()\<close>, in seconds, at the places that read the clock; this is the wall
  clock, which can be set back between two readings. The five analysis agents run
  concurrently; their effects on the store are independent rows of \<open>analysis_logs\<close>,
  and the model performs them in the order of the agent list.
\<close>

datatype fault = Exception string | CancelledError string

datatype event = NoContent | PartsContent "string option list" | StrContent string | OtherContent

record env =
  uuid8 :: string
  ctor_fault :: "string option"
  create_fault :: "string option"
  update_fault :: "string \<Rightarrow> string option"
  log_fault :: "string \<Rightarrow> string \<Rightarrow> string option"
  session_fault :: "string \<Rightarrow> fault option"
  runner_out :: "string \<Rightarrow> string \<Rightarrow> string \<Rightarrow> fault + event list"
  pdf_out :: "string + string option"
  t_start :: "string \<Rightarrow> real"
  t_done :: "string \<Rightarrow> real"
  t_fail :: "string \<Rightarrow> real"
  run_t0 :: real
  run_t1 :: real
  run_tfail :: real

text \<open>\<open>int(x)\<close> on a float truncates towards zero; \<open>int((t1 - t0) * 1000)\<close>.\<close>

definition py_int :: "real \<Rightarrow> int" where
  "py_int x = (if 0 \<le> x then \<lfloor>x\<rfloor> else \<lceil>x\<rceil>)"

definition millis :: "real \<Rightarrow> real \<Rightarrow> int" where
  "millis t0 t1 = py_int ((t1 - t0) * 1000)"

text \<open>Truthiness of an optional string: \<open>None\<close> and the empty string are false.\<close>

definition truthy :: "string option \<Rightarrow> bool" where
  "truthy x = (case x of None \<Rightarrow> False | Some t \<Rightarrow> t \<noteq> [])"

subsection \<open>Methods of the store\<close>

definition create_analysis_request ::
  "env \<Rightarrow> database \<Rightarrow> string \<Rightarrow> string + database \<times> string" where
  "create_analysis_request e d website =
     (case create_fault e of
        Some m \<Rightarrow> Inl m
      | None \<Rightarrow>
          if uuid8 e \<in> set (map fst (analysis_requests d))
          then Inl ''UNIQUE constraint failed: analysis_requests.unique_identifier''
          else Inr (d\<lparr>analysis_requests := analysis_requests d @
                        [(uuid8 e, \<lparr>col_website_url = website, col_status = ''pending'',
                            col_completed_at = False, col_analysis_result = None,
                            col_report_markdown = None, col_error_message = None\<rparr>)],
                      status_writes := status_writes d @ [(uuid8 e, ''pending'')]\<rparr>,
                    uuid8 e))"

definition update_request_status ::
  "env \<Rightarrow> database \<Rightarrow> string \<Rightarrow> string \<Rightarrow> analysis_summary option \<Rightarrow> string option \<Rightarrow>
     string option \<Rightarrow> string + database \<times> bool" where
  "update_request_status e d unique_identifier st analysis_result report_markdown error_message =
     (case update_fault e st of
        Some m \<Rightarrow> Inl m
      | None \<Rightarrow>
          (case map_of (analysis_requests d) unique_identifier of
             None \<Rightarrow> Inr (d, False)
           | Some row \<Rightarrow>
               Inr (d\<lparr>analysis_requests :=
                        AList.update unique_identifier
                          (row\<lparr>col_status := st,
                             col_completed_at := (st = ''completed'' \<or> col_completed_at row),
                             col_analysis_result :=
                               (if analysis_result \<noteq> None then analysis_result
                                else col_analysis_result row),
                             col_report_markdown :=
                               (if truthy report_markdown then report_markdown
                                else col_report_markdown row),
                             col_error_message :=
                               (if truthy error_message then error_message
                                else col_error_message row)\<rparr>)
                          (analysis_requests d),
                      status_writes := status_writes d @ [(unique_identifier, st)]\<rparr>,
                    True)))"

definition log_agent_action ::
  "env \<Rightarrow> database \<Rightarrow> string \<Rightarrow> string \<Rightarrow> string \<Rightarrow> details option \<Rightarrow> int option \<Rightarrow>
     string + database" where
  "log_agent_action e d rid agent action dets dur =
     (case log_fault e agent action of
        Some m \<Rightarrow> Inl m
      | None \<Rightarrow>
          Inr (d\<lparr>analysis_logs := analysis_logs d @
                   [\<lparr>log_request_id = rid, log_agent_name = agent, log_action = action,
                      log_details = dets, log_duration_ms = dur\<rparr>]\<rparr>))"

section \<open>Tracing\<close>

text \<open>
  \<open>Span\<close> and \<open>Tracer\<close> of the observability module, with the functions that open and
  close a trace. A trace identifier is a counter printed in decimal, padded with zeros,
  after the formatted \<open>datetime.now()\<close>, here \<open>stamp\<close>. Spans are appended to
  \<open>Tracer.spans\<close> by the context manager \<open>Tracer.span\<close> only, which no function of the
  analysis calls; it is not modelled, nor are the event list of a span and the metrics
  collector.
\<close>

record Span =
  span_name :: string
  span_trace_id :: string
  span_id :: string
  parent_span_id :: "string option"
  start_time :: real
  end_time :: "real option"
  span_duration_ms :: "int option"
  span_status :: string
  attributes :: "(string \<times> string) list"

record Tracer =
  spans :: "Span list"
  span_id_counter :: nat
  trace_id_counter :: nat
  current_trace_id :: "string option"
  current_span_id :: "string option"

fun decimal :: "nat \<Rightarrow> string" where
  "decimal n = (if n < 10 then [char_of (48 + n)] else decimal (n div 10) @ [char_of (48 + n mod 10)])"

definition zero_pad :: "nat \<Rightarrow> string \<Rightarrow> string" where
  "zero_pad w s = replicate (w - length s) CHR ''0'' @ s"

definition generate_trace_id :: "Tracer \<Rightarrow> string \<Rightarrow> Tracer \<times> string" where
  "generate_trace_id tr stamp =
     (tr\<lparr>trace_id_counter := trace_id_counter tr + 1\<rparr>,
      ''trace_'' @ stamp @ ''_'' @ zero_pad 4 (decimal (trace_id_counter tr + 1)))"

definition start_trace :: "Tracer \<Rightarrow> string \<Rightarrow> string \<Rightarrow> Tracer \<times> string" where
  "start_trace tr stamp name =
     (let (tr1, tid) = generate_trace_id tr stamp
      in (tr1\<lparr>current_trace_id := Some tid\<rparr>, tid))"

definition end_trace :: "Tracer \<Rightarrow> Tracer" where
  "end_trace tr = tr\<lparr>current_trace_id := None, current_span_id := None\<rparr>"

text \<open>\<open>log_analysis_start\<close> and \<open>log_analysis_complete\<close>, as far as the tracer goes.\<close>

definition log_analysis_start :: "Tracer \<Rightarrow> string \<Rightarrow> string \<Rightarrow> string \<Rightarrow> Tracer" where
  "log_analysis_start tr stamp u rid = fst (start_trace tr stamp (''seo_analysis_'' @ rid))"

definition log_analysis_complete :: "Tracer \<Rightarrow> string \<Rightarrow> int \<Rightarrow> string \<Rightarrow> Tracer" where
  "log_analysis_complete tr rid total_duration st = end_trace tr"

section \<open>The orchestrator\<close>

text \<open>
  The state a run can touch: the store, the sessions created in the session service,
  and the process-wide tracer.
\<close>

record world =
  db :: database
  sessions :: "string list"
  tracer :: Tracer

definition ANALYSIS_AGENTS :: "string list" where
  "ANALYSIS_AGENTS = [''security_agent'', ''onpage_agent'', ''content_agent'',
     ''performance_agent'', ''indexability_agent'']"

text \<open>\<open>_init_runners\<close>: one runner for each analysis agent and one for the report agent.\<close>

definition init_runners :: "string list \<Rightarrow> string list" where
  "init_runners agents = agents @ [''report_agent'']"

fun event_text :: "event \<Rightarrow> string" where
  "event_text NoContent = []"
| "event_text (PartsContent ps) = concat (map (\<lambda>p. case p of Some t \<Rightarrow> t | None \<Rightarrow> []) ps)"
| "event_text (StrContent t) = t"
| "event_text OtherContent = []"

text \<open>
  \<open>_run_agent\<close>. A missing runner gives a failed result at once. Otherwise the runner is
  invoked, its events are joined and the completion is logged in the store. An
  \<open>Exception\<close> of the runner or of that log write goes to the handler, which logs the
  error and returns a failed result with the message; an exception of the handler's own
  log write leaves the coroutine. A \<open>CancelledError\<close> of the runner passes the handler
  and leaves the coroutine, with nothing logged.
\<close>

definition run_agent ::
  "env \<Rightarrow> string list \<Rightarrow> database \<Rightarrow> string \<Rightarrow> string \<Rightarrow> string \<Rightarrow> string \<Rightarrow>
     database \<times> (fault + AgentResult)" where
  "run_agent e runners d name prompt session_id rid =
     (if name \<notin> set runners
      then (d, Inr \<lparr>agent_name = name, success = False, result = [], duration_ms = 0,
                    error = Some (''Runner not found for agent: '' @ name)\<rparr>)
      else
        let d0 = d\<lparr>runner_calls := runner_calls d @ [(name, prompt, session_id)]\<rparr>;
            handler = (\<lambda>error_msg.
              let dur = millis (t_start e name) (t_fail e name)
              in case log_agent_action e d0 rid name ''analysis_error''
                        (Some (ErrorDetail error_msg)) (Some dur) of
                   Inl m \<Rightarrow> (d0, Inl (Exception m))
                 | Inr d' \<Rightarrow>
                     (d', Inr \<lparr>agent_name = name, success = False, result = [],
                              duration_ms = dur, error = Some error_msg\<rparr>))
        in case runner_out e name session_id prompt of
             Inl (CancelledError m) \<Rightarrow> (d0, Inl (CancelledError m))
           | Inl (Exception error_msg) \<Rightarrow> handler error_msg
           | Inr events \<Rightarrow>
               let result_text = concat (map event_text events);
                   dur = millis (t_start e name) (t_done e name)
               in case log_agent_action e d0 rid name ''analysis_complete''
                         (Some (ResultLength (length result_text))) (Some dur) of
                    Inl error_msg \<Rightarrow> handler error_msg
                  | Inr d' \<Rightarrow>
                      (d', Inr \<lparr>agent_name = name, success = True, result = result_text,
                               duration_ms = dur, error = None\<rparr>))"

text \<open>The dictionary \<open>agent_prompts\<close> read with \<open>get\<close> and its default.\<close>

definition agent_prompt :: "string \<Rightarrow> string \<Rightarrow> string" where
  "agent_prompt u name =
     (if name = ''security_agent''
      then ''Analyze the security of this website: '' @ u @
           ''. Check HTTPS, SSL, and security headers.''
      else if name = ''onpage_agent''
      then ''Analyze the on-page SEO of this website: '' @ u @
           ''. Check title, meta description, headings, and images.''
      else if name = ''content_agent''
      then ''Analyze the content quality of this website: '' @ u @
           ''. Check word count and internal linking.''
      else if name = ''performance_agent''
      then ''Analyze the performance of this website: '' @ u @
           ''. Check page speed and mobile-friendliness.''
      else if name = ''indexability_agent''
      then ''Analyze the indexability of this website: '' @ u @
           ''. Check robots.txt, sitemap, and meta robots.''
      else ''Analyze this website: '' @ u)"

text \<open>
  \<open>run_parallel_analysis\<close>. The loop over the agents builds one task for each agent:
  the call of \<open>_run_agent\<close> with the agent's name, its prompt and its session. All tasks
  are awaited by \<open>asyncio.gather(..., return_exceptions=True)\<close>, which returns one outcome
  for each task, a result or the exception that left the task (a \<open>CancelledError\<close>
  included), after every task has ended. The loop \<open>process_results\<close> then files the
  results under their agent names, only logs an \<open>Exception\<close>, and passes over anything
  else.
\<close>

definition make_tasks :: "string \<Rightarrow> string \<Rightarrow> string list \<Rightarrow> task list" where
  "make_tasks u session_id agents =
     map (\<lambda>agent. (agent, agent_prompt u agent, session_id @ ''_'' @ agent)) agents"

fun gather ::
  "env \<Rightarrow> string list \<Rightarrow> database \<Rightarrow> string \<Rightarrow> task list \<Rightarrow>
     database \<times> (fault + AgentResult) list" where
  "gather e runners d rid [] = (d, [])"
| "gather e runners d rid ((name, prompt, session_id) # tasks) =
     (let (d1, r) = run_agent e runners d name prompt session_id rid;
          (d2, rs) = gather e runners d1 rid tasks
      in (d2, r # rs))"

fun process_results ::
  "(fault + AgentResult) list \<Rightarrow> (string \<times> AgentResult) list \<Rightarrow> (string \<times> AgentResult) list" where
  "process_results [] acc = acc"
| "process_results (Inr r # rs) acc = process_results rs (AList.update (agent_name r) r acc)"
| "process_results (Inl (Exception m) # rs) acc = process_results rs acc"
| "process_results (Inl (CancelledError m) # rs) acc = process_results rs acc"

definition run_parallel_analysis ::
  "env \<Rightarrow> string list \<Rightarrow> string list \<Rightarrow> database \<Rightarrow> string \<Rightarrow> string \<Rightarrow> string \<Rightarrow>
     database \<times> (string \<times> AgentResult) list" where
  "run_parallel_analysis e runners agents d u rid session_id =
     (let tasks = make_tasks u session_id agents;
          (d', results) = gather e runners d rid tasks
      in (d', process_results results []))"

text \<open>
  \<open>generate_report\<close>: the prompt lists every entry of the result dictionary, a failed
  one with its error, and the report agent runs on it in its own session. On the code
  points whose upper-case form is again below 256, \<open>str.upper\<close> moves \<open>a-z\<close> and
  \<open>U+00E0\<close> to \<open>U+00FE\<close> (without the division sign) 32 places down; the agent names of
  the registry are ASCII.
\<close>

definition upper_char :: "char \<Rightarrow> char" where
  "upper_char c =
     (let n = (of_char c :: nat)
      in if (97 \<le> n \<and> n \<le> 122) \<or> (224 \<le> n \<and> n \<le> 254 \<and> n \<noteq> 247)
         then char_of (n - 32) else c)"

definition upper :: "string \<Rightarrow> string" where
  "upper s = map upper_char s"

definition newline :: string where
  "newline = [CHR 0x0A]"

fun summary_lines :: "(string \<times> AgentResult) list \<Rightarrow> string" where
  "summary_lines [] = []"
| "summary_lines ((name, r) # rest) =
     ''--- '' @ upper name @ '' ---'' @ newline @
     (if success r then result r @ newline @ newline
      else ''Analysis failed: '' @ (case error r of Some m \<Rightarrow> m | None \<Rightarrow> ''None'') @
           newline @ newline) @
     summary_lines rest"

definition results_summary :: "string \<Rightarrow> (string \<times> AgentResult) list \<Rightarrow> string" where
  "results_summary u ars =
     ''Website analyzed: '' @ u @ newline @ newline @
     ''=== ANALYSIS RESULTS ==='' @ newline @ newline @ summary_lines ars"

definition report_prompt :: "string \<Rightarrow> (string \<times> AgentResult) list \<Rightarrow> string" where
  "report_prompt u ars =
     ''Based on the following SEO analysis results, create a comprehensive SEO report for the website.''
     @ newline @ newline @ results_summary u ars @ newline @ newline @
     ''Create a well-formatted markdown report that includes:'' @ newline @
     ''1. Executive Summary with overall score'' @ newline @
     ''2. What'' @ [CHR 0x27] @ ''s working well (positives)'' @ newline @
     ''3. Issues found (organized by category)'' @ newline @
     ''4. Prioritized recommendations'' @ newline @
     ''5. Next steps'' @ newline @ newline @
     ''Make the report easy to understand for non-technical users.''"

definition generate_report ::
  "env \<Rightarrow> string list \<Rightarrow> database \<Rightarrow> string \<Rightarrow> (string \<times> AgentResult) list \<Rightarrow> string \<Rightarrow>
     string \<Rightarrow> database \<times> (fault + AgentResult)" where
  "generate_report e runners d u ars rid session_id =
     run_agent e runners d ''report_agent'' (report_prompt u ars)
       (session_id @ ''_report_agent'') rid"

text \<open>The summary of the agents written to the store with the final status.\<close>

definition summary_of :: "SEOAnalysisResult \<Rightarrow> analysis_summary" where
  "summary_of ar =
     \<lparr>sum_agent_results =
        map (\<lambda>(name, r). (name, \<lparr>sum_success = success r, sum_duration_ms = duration_ms r,
                                    sum_error = error r\<rparr>)) (agent_results ar),
      sum_overall_score = overall_score ar,
      sum_total_duration_ms = total_duration_ms ar\<rparr>"

text \<open>
  The branch of \<open>analyze_website\<close> for a successful report: report and status are set,
  the overall score is computed when a score was found (it keeps its value 0
  otherwise), and the PDF is generated, which may raise or give no path.
\<close>

definition report_succeeded ::
  "env \<Rightarrow> SEOAnalysisResult \<Rightarrow> AgentResult \<Rightarrow> SEOAnalysisResult \<times> string option" where
  "report_succeeded e ar report_result =
     (let scores = collect_scores (map snd (agent_results ar));
          ar1 = ar\<lparr>final_report := Some (result report_result), status := ''completed'',
                   overall_score := (if scores \<noteq> [] then overall_of scores
                                     else overall_score ar)\<rparr>
      in case pdf_out e of
           Inl m \<Rightarrow> (ar1, Some m)
         | Inr p \<Rightarrow> (if truthy p then ar1\<lparr>pdf_path := p\<rparr> else ar1, None))"

definition report_failed :: "SEOAnalysisResult \<Rightarrow> SEOAnalysisResult" where
  "report_failed ar =
     ar\<lparr>status := ''partial'',
        final_report := Some ''Report generation failed. See individual agent results.''\<rparr>"

text \<open>
  The \<open>try\<close> block of \<open>analyze_website\<close>. It returns the store and the result object as
  they are when the block ends, and the exception that ended it, if any. The report
  agent is awaited directly, so an exception that leaves its coroutine, a
  \<open>CancelledError\<close> included, ends the block.
\<close>

definition try_block ::
  "env \<Rightarrow> string list \<Rightarrow> database \<Rightarrow> SEOAnalysisResult \<Rightarrow> string \<Rightarrow>
     database \<times> SEOAnalysisResult \<times> fault option" where
  "try_block e agents d ar0 session_id =
     (let u = url ar0; rid = request_id ar0; runners = init_runners agents
      in case log_agent_action e d rid ''orchestrator'' ''parallel_analysis_start''
                (Some (UrlDetail u)) None of
           Inl m \<Rightarrow> (d, ar0, Some (Exception m))
         | Inr d1 \<Rightarrow>
             let (d2, results) = run_parallel_analysis e runners agents d1 u rid session_id;
                 ar1 = ar0\<lparr>agent_results := results\<rparr>
             in case log_agent_action e d2 rid ''orchestrator'' ''report_generation_start''
                       None None of
                  Inl m \<Rightarrow> (d2, ar1, Some (Exception m))
                | Inr d3 \<Rightarrow>
                    (case generate_report e runners d3 u results rid session_id of
                       (d4, Inl f) \<Rightarrow> (d4, ar1, Some f)
                     | (d4, Inr report_result) \<Rightarrow>
                         (case (if success report_result
                                then report_succeeded e ar1 report_result
                                else (report_failed ar1, None)) of
                            (ar2, Some m) \<Rightarrow> (d4, ar2, Some (Exception m))
                          | (ar2, None) \<Rightarrow>
                              let ar3 = ar2\<lparr>total_duration_ms :=
                                               millis (run_t0 e) (run_t1 e)\<rparr>
                              in case update_request_status e d4 rid (status ar3)
                                        (Some (summary_of ar3)) (final_report ar3) None of
                                   Inl m \<Rightarrow> (d4, ar3, Some (Exception m))
                                 | Inr (d5, _) \<Rightarrow> (d5, ar3, None))))"

fun create_sessions :: "env \<Rightarrow> string list \<Rightarrow> string list \<Rightarrow> string list \<times> fault option" where
  "create_sessions e ss [] = (ss, None)"
| "create_sessions e ss (sid # rest) =
     (case session_fault e sid of
        Some f \<Rightarrow> (ss, Some f)
      | None \<Rightarrow> create_sessions e (ss @ [sid]) rest)"

text \<open>
  \<open>analyze_website\<close>. The request is created, set to \<open>analyzing\<close>, and the sessions are
  created before the \<open>try\<close> block: an exception there leaves the method. An
  \<open>Exception\<close> that ends the \<open>try\<close> block is handled by writing the status \<open>failed\<close>
  with the message, and an exception of that write leaves the method as well. A
  \<open>CancelledError\<close> that ends the \<open>try\<close> block passes the handler and leaves the
  method. \<open>analyze_url\<close> is the module's function of that name: it hands its URL to
  \<open>analyze_website\<close> as it is, and so does the command line, which calls
  \<open>analyze_website\<close> with its argument.
\<close>

definition initial_result :: "string \<Rightarrow> string \<Rightarrow> SEOAnalysisResult" where
  "initial_result u rid =
     \<lparr>url = u, request_id = rid, agent_results = [], final_report = None, pdf_path = None,
        overall_score = 0, total_duration_ms = 0, status = ''analyzing''\<rparr>"

definition session_ids :: "string \<Rightarrow> string list \<Rightarrow> string list" where
  "session_ids session_id agents =
     map (\<lambda>a. session_id @ ''_'' @ a) agents @ [session_id @ ''_report_agent'']"

definition analyze_website ::
  "env \<Rightarrow> string list \<Rightarrow> world \<Rightarrow> string \<Rightarrow> world \<times> (fault + SEOAnalysisResult)" where
  "analyze_website e agents w u =
     (case create_analysis_request e (db w) u of
        Inl m \<Rightarrow> (w, Inl (Exception m))
      | Inr (d0, rid) \<Rightarrow>
          let session_id = ''seo_session_'' @ rid
          in case update_request_status e d0 rid ''analyzing'' None None None of
               Inl m \<Rightarrow> (w\<lparr>db := d0\<rparr>, Inl (Exception m))
             | Inr (d1, _) \<Rightarrow>
                 (case create_sessions e (sessions w) (session_ids session_id agents) of
                    (ss, Some f) \<Rightarrow> (w\<lparr>db := d1, sessions := ss\<rparr>, Inl f)
                  | (ss, None) \<Rightarrow>
                      case try_block e agents d1 (initial_result u rid) session_id of
                           (d2, ar, None) \<Rightarrow> (w\<lparr>db := d2, sessions := ss\<rparr>, Inr ar)
                         | (d2, ar, Some (CancelledError m)) \<Rightarrow>
                             (w\<lparr>db := d2, sessions := ss\<rparr>, Inl (CancelledError m))
                         | (d2, ar, Some (Exception error_msg)) \<Rightarrow>
                             let ar' = ar\<lparr>status := ''failed'',
                                           total_duration_ms :=
                                             millis (run_t0 e) (run_tfail e)\<rparr>
                             in case update_request_status e d2 rid ''failed'' None None
                                       (Some error_msg) of
                                  Inl m \<Rightarrow> (w\<lparr>db := d2, sessions := ss\<rparr>, Inl (Exception m))
                                | Inr (d3, _) \<Rightarrow>
                                    (w\<lparr>db := d3, sessions := ss\<rparr>, Inr ar')))"

definition analyze_url ::
  "env \<Rightarrow> string list \<Rightarrow> world \<Rightarrow> string \<Rightarrow> world \<times> (fault + SEOAnalysisResult)" where
  "analyze_url e agents w u = analyze_website e agents w u"

section \<open>URL normalisation\<close>

text \<open>\<open>normalize_url\<close> of the tools and the validator \<open>validate_url\<close> of the API request.\<close>

definition normalize_url :: "string \<Rightarrow> string" where
  "normalize_url u = (let v = strip u in if \<not> has_scheme v then ''https://'' @ v else v)"

definition validate_url :: "string \<Rightarrow> string" where
  "validate_url v = (if \<not> has_scheme v then ''https://'' @ v else v)"

section \<open>Category scores of a report\<close>

text \<open>
  The five patterns of \<open>parse_category_scores\<close>, in the order of the dictionary. They
  are searched in the lower-cased report, on which \<open>re.IGNORECASE\<close> changes nothing for
  these patterns (within the code points modelled).
\<close>

definition score_tail :: regex where
  "score_tail =
     Seq (LazyStar AnyChar)
       (Seq (Alt (Lit ''score'') (Lit ''rating''))
          (Seq (Star ColonSpace) (Seq (Group (Plus Digit)) (Opt (Lit ''/100'')))))"

definition categories :: "(string \<times> regex) list" where
  "categories =
     [(''security'', Seq (Alt (Lit ''security'') (Alt (Lit ''ssl'') (Lit ''https''))) score_tail),
      (''onpage'',
         Seq (Alt (Seq (Lit ''on'') (Seq (Opt (Lit ''-'')) (Lit ''page'')))
                (Alt (Lit ''meta'') (Lit ''seo''))) score_tail),
      (''content'', Seq (Alt (Lit ''content'') (Alt (Lit ''text'') (Lit ''quality''))) score_tail),
      (''performance'',
         Seq (Alt (Lit ''performance'') (Alt (Lit ''speed'') (Lit ''loading''))) score_tail),
      (''indexability'',
         Seq (Alt (Lit ''indexability'') (Alt (Lit ''crawl'') (Lit ''robot''))) score_tail)]"

text \<open>
  The second pattern is the f-string \<^verbatim>\<open>rf"#{1,3}\s*{category}.*?(\d+)\s*/\s*100"\<close>. In an
  f-string the braces of \<^verbatim>\<open>{1,3}\<close> are a replacement field holding the tuple \<open>(1, 3)\<close>,
  so the pattern searched is \<^verbatim>\<open>#(1, 3)\s*security.*?(\d+)\s*/\s*100\<close> (for the category
  \<open>security\<close>): its first group is the literal text \<open>1, 3\<close> and the digits are the
  second group.
\<close>

definition section_pattern :: "string \<Rightarrow> regex" where
  "section_pattern category =
     Seq (Lit ''#'') (Seq (Group (Lit ''1, 3'')) (Seq (Star Space) (Seq (Lit category)
       (Seq (LazyStar AnyChar) (Seq (Group (Plus Digit)) (Seq (Star Space)
         (Seq (Lit ''/'') (Seq (Star Space) (Lit ''100'')))))))))"

text \<open>
  \<open>int(s)\<close> on the texts that reach it here, a group of digits or the text \<open>1, 3\<close>:
  \<open>None\<close> stands for \<open>ValueError\<close>.
\<close>

definition parse_int :: "string \<Rightarrow> int option" where
  "parse_int s = (if s \<noteq> [] \<and> list_all is_digit s then Some (int_of_digits s) else None)"

definition category_score :: "string \<Rightarrow> string \<Rightarrow> regex \<Rightarrow> int" where
  "category_score report_lower category pattern =
     (case re_search pattern report_lower of
        Some g \<Rightarrow>
          (case parse_int (group g 1) of
             Some score \<Rightarrow> min 100 (max 0 score)
           | None \<Rightarrow> 75)
      | None \<Rightarrow>
          (case re_search (section_pattern category) report_lower of
             Some g \<Rightarrow> (case parse_int (group g 1) of Some score \<Rightarrow> score | None \<Rightarrow> 75)
           | None \<Rightarrow> 75))"

definition parse_category_scores :: "string \<Rightarrow> (string \<times> int) list" where
  "parse_category_scores report =
     (let report_lower = lower report
      in map (\<lambda>(category, pattern). (category, category_score report_lower category pattern))
           categories)"

section \<open>The API server\<close>

text \<open>
  An entry of \<open>analysis_store\<close>; a key that may be absent is an option. The counts of
  issues, warnings and passed checks, which \<open>parse_report_stats\<close> reads off the report,
  and the time stamps are not modelled.
\<close>

record agent_state =
  ag_status :: string
  ag_message :: "string option"

record analysis_entry =
  st_url :: string
  st_status :: string
  st_current_agent :: "string option"
  st_agents :: "(string \<times> agent_state) list"
  st_overall_score :: "int option"
  st_report :: "string option"
  st_category_scores :: "(string \<times> int) list option"
  st_pdf_path :: "string option"
  st_error :: "string option"

text \<open>\<open>start_analysis\<close>: the request model has validated the URL; the entry is created
  and the background task is scheduled with the identifier and the validated URL.\<close>

definition start_analysis ::
  "(string \<times> analysis_entry) list \<Rightarrow> string \<Rightarrow> string \<Rightarrow>
     (string \<times> analysis_entry) list \<times> string \<times> string" where
  "start_analysis store new_id raw_url =
     (let request_url = validate_url raw_url
      in (AList.update new_id
            \<lparr>st_url = request_url, st_status = ''pending'', st_current_agent = None,
               st_agents = [], st_overall_score = None, st_report = None,
               st_category_scores = None, st_pdf_path = None, st_error = None\<rparr> store,
          new_id, request_url))"

definition parallel_names :: "string list" where
  "parallel_names = [''security'', ''onpage'', ''content'', ''performance'', ''indexability'']"

definition set_agent_status :: "string \<Rightarrow> string option \<Rightarrow> string list \<Rightarrow>
     (string \<times> agent_state) list \<Rightarrow> (string \<times> agent_state) list" where
  "set_agent_status st msg names agents =
     fold (\<lambda>n acc. AList.update n \<lparr>ag_status = st, ag_message = msg\<rparr> acc) names agents"

text \<open>
  The background task \<open>run_analysis\<close> on the entry of its request. An \<open>Exception\<close> of
  the body, of the orchestrator's constructor or of \<open>analyze_website\<close>, is handled by
  marking the entry as \<open>error\<close>. A \<open>CancelledError\<close> of \<open>analyze_website\<close> passes the
  handler and ends the task, the entry staying as it is then. Without an entry the
  first assignment raises \<open>KeyError\<close>, the handler raises it again, and the task ends
  with it. A task that ends with an exception gives the exception and the store as it is
  at that point.
\<close>

definition run_analysis ::
  "env \<Rightarrow> string list \<Rightarrow> world \<Rightarrow> (string \<times> analysis_entry) list \<Rightarrow> string \<Rightarrow> string \<Rightarrow>
     world \<times> (fault \<times> (string \<times> analysis_entry) list + (string \<times> analysis_entry) list)" where
  "run_analysis e agents w store rid u =
     (case map_of store rid of
        None \<Rightarrow> (w, Inl (Exception ([CHR 0x27] @ rid @ [CHR 0x27]), store))
      | Some entry \<Rightarrow>
          let on_error = (\<lambda>en m. en\<lparr>st_status := ''error'', st_error := Some m,
                                        st_current_agent := None\<rparr>);
              en1 = entry\<lparr>st_status := ''running''\<rparr>
          in case ctor_fault e of
               Some m \<Rightarrow> (w, Inr (AList.update rid (on_error en1 m) store))
             | None \<Rightarrow>
                 let en2 = en1\<lparr>st_agents :=
                              set_agent_status ''running'' None parallel_names
                                (set_agent_status ''pending'' None (parallel_names @ [''report''])
                                   (st_agents en1)),
                            st_current_agent := Some ''security''\<rparr>
                 in case analyze_website e agents w u of
                      (w', Inl (CancelledError m)) \<Rightarrow>
                        (w', Inl (CancelledError m, AList.update rid en2 store))
                    | (w', Inl (Exception m)) \<Rightarrow>
                        (w', Inr (AList.update rid (on_error en2 m) store))
                    | (w', Inr res) \<Rightarrow>
                        let agents3 = set_agent_status ''completed'' (Some ''Report generated'')
                                        [''report'']
                                        (set_agent_status ''completed'' (Some ''Analysis complete'')
                                           parallel_names (st_agents en2));
                            overall = (if overall_score res \<noteq> 0 then overall_score res else 75);
                            report = (case final_report res of Some t \<Rightarrow> t | None \<Rightarrow> []);
                            en3 = en2\<lparr>st_agents := agents3, st_status := ''completed'',
                                      st_overall_score := Some overall,
                                      st_report := Some report,
                                      st_category_scores := Some (parse_category_scores report),
                                      st_pdf_path := pdf_path res,
                                      st_current_agent := None\<rparr>
                        in (w', Inr (AList.update rid en3 store)))"

text \<open>The endpoint \<open>get_analysis_results\<close>.\<close>

record result_payload =
  overallScore :: int
  report_text :: string
  categoryScores :: "(string \<times> int) list"
  pdfAvailable :: bool

datatype response =
    NotFound404
  | Error500 string
  | InProgress202 string
  | Ok200 result_payload

definition get_analysis_results :: "(string \<times> analysis_entry) list \<Rightarrow> string \<Rightarrow> response" where
  "get_analysis_results store rid =
     (case map_of store rid of
        None \<Rightarrow> NotFound404
      | Some analysis \<Rightarrow>
          if st_status analysis = ''error''
          then Error500 (case st_error analysis of Some m \<Rightarrow> m | None \<Rightarrow> ''Analysis failed'')
          else if st_status analysis \<noteq> ''completed''
          then InProgress202 (st_status analysis)
          else Ok200 \<lparr>overallScore = (case st_overall_score analysis of Some n \<Rightarrow> n | None \<Rightarrow> 75),
                        report_text = (case st_report analysis of Some r \<Rightarrow> r | None \<Rightarrow> []),
                        categoryScores = (case st_category_scores analysis of
                                            Some cs \<Rightarrow> cs | None \<Rightarrow> []),
                        pdfAvailable = (st_pdf_path analysis \<noteq> None)\<rparr>)"

section \<open>Concrete runs\<close>

text \<open>
  A run in which nothing raises: every runner answers with one text part, the clock
  advances, no PDF path is returned. The store is empty, no session exists and the
  tracer is fresh.
\<close>

definition env_quiet :: env where
  "env_quiet =
     \<lparr>uuid8 = ''ab12cd34'', ctor_fault = None, create_fault = None,
        update_fault = (\<lambda>_. None), log_fault = (\<lambda>_ _. None), session_fault = (\<lambda>_. None),
        runner_out = (\<lambda>a s p. Inr [PartsContent [Some ''All checks done.'']]),
        pdf_out = Inr None, t_start = (\<lambda>_. 0), t_done = (\<lambda>_. 1 / 4), t_fail = (\<lambda>_. 1 / 8),
        run_t0 = 0, run_t1 = 1, run_tfail = 1 / 2\<rparr>"

definition world0 :: world where
  "world0 =
     \<lparr>db = \<lparr>analysis_requests = [], analysis_logs = [], status_writes = [],
              runner_calls = []\<rparr>,
        sessions = [],
        tracer = \<lparr>spans = [], span_id_counter = 0, trace_id_counter = 0,
                    current_trace_id = None, current_span_id = None\<rparr>\<rparr>"

text \<open>
  Runs of the parallel stage with faults: the runner of the content agent raises an
  \<open>Exception\<close>; and a run in which, besides, the store refuses the error log of the
  content agent, the performance agent is cancelled, and the clock is set back while
  the security agent runs.
\<close>

definition env_worker_fault :: env where
  "env_worker_fault =
     env_quiet\<lparr>runner_out :=
       (\<lambda>a s p. if a = ''content_agent'' then Inl (Exception ''boom'')
                 else Inr [PartsContent [Some ''All checks done.'']])\<rparr>"

definition env_parallel_faults :: env where
  "env_parallel_faults =
     env_quiet\<lparr>runner_out :=
       (\<lambda>a s p. if a = ''content_agent'' then Inl (Exception ''boom'')
                 else if a = ''performance_agent'' then Inl (CancelledError [])
                 else Inr [PartsContent [Some ''All checks done.'']]),
       log_fault :=
       (\<lambda>a action. if a = ''content_agent'' \<and> action = ''analysis_error''
                    then Some ''database is locked'' else None),
       t_start := (\<lambda>a. if a = ''security_agent'' then 1 else 0)\<rparr>"

text \<open>
  Runs with a failing store, session service or report agent: the store cannot be
  opened at all; the store refuses the write of \<open>analyzing\<close>; the session of the
  security agent cannot be created; the store is lost after the status \<open>analyzing\<close>
  has been written; the store refuses the orchestrator's log entries only, with a
  message and with an empty message; the runner of the report agent raises an
  \<open>Exception\<close>; the report agent is cancelled.
\<close>

definition env_store_down :: env where
  "env_store_down = env_quiet\<lparr>create_fault := Some ''unable to open database file''\<rparr>"

definition env_analyzing_refused :: env where
  "env_analyzing_refused =
     env_quiet\<lparr>update_fault := (\<lambda>st. if st = ''analyzing'' then Some ''database is locked''
                                      else None)\<rparr>"


definition env_store_lost :: env where
  "env_store_lost =
     env_quiet\<lparr>update_fault := (\<lambda>st. if st = ''analyzing'' then None
                                      else Some ''database is locked''),
                log_fault := (\<lambda>a action. Some ''database is locked'')\<rparr>"



definition env_report_fault :: env where
  "env_report_fault =
     env_quiet\<lparr>runner_out :=
       (\<lambda>a s p. if a = ''report_agent'' then Inl (Exception ''model overloaded'')
                 else Inr [PartsContent [Some ''All checks done.'']])\<rparr>"

definition env_report_cancelled :: env where
  "env_report_cancelled =
     env_quiet\<lparr>runner_out :=
       (\<lambda>a s p. if a = ''report_agent'' then Inl (CancelledError [])
                 else Inr [PartsContent [Some ''All checks done.'']])\<rparr>"

section \<open>Phrases of a text, in the words of the specification\<close>

text \<open>
  \<open>contains s p\<close>: the text \<open>p\<close> occurs in \<open>s\<close>. \<open>has_phrase kws ws s\<close>: one of the key
  words \<open>kws\<close> occurs in \<open>s\<close> and one of the words \<open>ws\<close> occurs after its end; with the
  key words of a category and the words \<open>score\<close> and \<open>rating\<close> this is a score phrase of
  the category, whatever follows it.
\<close>

fun contains :: "string \<Rightarrow> string \<Rightarrow> bool" where
  "contains [] p = (p = [])"
| "contains (c # cs) p = (startswith (c # cs) p \<or> contains cs p)"

fun has_phrase :: "string list \<Rightarrow> string list \<Rightarrow> string \<Rightarrow> bool" where
  "has_phrase kws ws [] = list_ex (\<lambda>k. k = [] \<and> list_ex (\<lambda>w. w = []) ws) kws"
| "has_phrase kws ws (c # cs) =
     (list_ex (\<lambda>k. startswith (c # cs) k \<and> list_ex (contains (drop (length k) (c # cs))) ws) kws
      \<or> has_phrase kws ws cs)"

text \<open>
  The first score phrase of a text, in the words of the specification for the
  orchestrator's pattern: \<open>score_here s\<close> says that \<open>s\<close> begins with the keyword \<open>score\<close>,
  then at least one colon or white-space character, then a digit; \<open>first_score\<close> returns
  the digits that follow the first place where this holds.
\<close>

definition score_here :: "string \<Rightarrow> bool" where
  "score_here s =
     (startswith s ''score'' \<and>
      (case drop 5 s of [] \<Rightarrow> False | c # _ \<Rightarrow> in_class ColonSpace c) \<and>
      (case dropWhile (in_class ColonSpace) (drop 5 s) of [] \<Rightarrow> False | c # _ \<Rightarrow> is_digit c))"

fun first_score :: "string \<Rightarrow> string option" where
  "first_score [] = None"
| "first_score (c # cs) =
     (if score_here (c # cs)
      then Some (takeWhile is_digit (dropWhile (in_class ColonSpace) (drop 5 (c # cs))))
      else first_score cs)"

section \<open>Properties\<close>

subsection \<open>Overall score\<close>

lemma int_of_digits_nonneg:
  assumes "0 \<le> a" "\<forall>c \<in> set ds. is_digit c"
  shows "0 \<le> foldl (\<lambda>acc c. 10 * acc + digit_val c) a ds"
  using assms
proof (induction ds arbitrary: a)
  case Nil
  then show ?case by simp
next
  case (Cons d ds)
  have "0 \<le> digit_val d"
    using Cons.prems(2) by (simp add: digit_val_def is_digit_def)
  with Cons.prems(1) have "0 \<le> 10 * a + digit_val d" by simp
  with Cons show ?case by simp
qed

text \<open>
  Claim C5. The overall score is the floor of the arithmetic mean of the scores parsed
  out of the successful agents' texts, and 0 when no score was parsed: this is what the
  branch for a successful report stores in a result whose score is still the initial 0.
  The scores 80, 60, 100 give 80 and no score gives 0.
\<close>

theorem overall_score_floor_mean:
  "overall_of scores =
     (if scores = [] then 0
      else \<lfloor>real_of_int (sum_list scores) / real (length scores)\<rfloor>)
   \<and> (overall_score ar = 0 \<longrightarrow>
        overall_score (fst (report_succeeded e ar rep)) =
          overall_of (collect_scores (map snd (agent_results ar))))
   \<and> overall_of [80, 60, 100] = 80 \<and> overall_of [] = 0"
proof -
  have "\<lfloor>real_of_int a / real n\<rfloor> = a div int n" for a :: int and n :: nat
    using floor_divide_of_int_eq [of a "int n", where ?'a = real] by simp
  then have mean: "overall_of scores =
     (if scores = [] then 0
      else \<lfloor>real_of_int (sum_list scores) / real (length scores)\<rfloor>)"
    by (simp add: overall_of_def)
  have stored: "overall_score (fst (report_succeeded e ar rep)) =
          overall_of (collect_scores (map snd (agent_results ar)))" if "overall_score ar = 0"
    using that
    by (simp add: report_succeeded_def Let_def overall_of_def split: sum.splits)
  have ex: "overall_of [80, 60, 100] = 80" "overall_of [] = 0"
    by (simp_all add: overall_of_def)
  from mean stored ex show ?thesis by blast
qed

theorem overall_score_floor_mean_witness:
  "overall_score (fst (report_succeeded env_quiet
      ((initial_result ''https://example.com'' ''ab12cd34'')
         \<lparr>agent_results :=
            [(''security_agent'',
              \<lparr>agent_name = ''security_agent'', success = True, result = ''Score: 80'',
                 duration_ms = 5, error = None\<rparr>),
             (''onpage_agent'',
              \<lparr>agent_name = ''onpage_agent'', success = True, result = ''SEO score 61'',
                 duration_ms = 7, error = None\<rparr>),
             (''content_agent'',
              \<lparr>agent_name = ''content_agent'', success = False, result = ''score: 3'',
                 duration_ms = 7, error = Some ''boom''\<rparr>)]\<rparr>)
      \<lparr>agent_name = ''report_agent'', success = True, result = ''Report'',
         duration_ms = 9, error = None\<rparr>)) = 70"
proof -
  let ?rs = "[(''security_agent'',
              \<lparr>agent_name = ''security_agent'', success = True, result = ''Score: 80'',
                 duration_ms = 5, error = None\<rparr>),
             (''onpage_agent'',
              \<lparr>agent_name = ''onpage_agent'', success = True, result = ''SEO score 61'',
                 duration_ms = 7, error = None\<rparr>),
             (''content_agent'',
              \<lparr>agent_name = ''content_agent'', success = False, result = ''score: 3'',
                 duration_ms = 7, error = Some ''boom''\<rparr>)]"
  let ?ar = "(initial_result ''https://example.com'' ''ab12cd34'')\<lparr>agent_results := ?rs\<rparr>"
  have z: "overall_score ?ar = 0" by (simp add: initial_result_def)
  have c: "collect_scores (map snd ?rs) = [80, 61]" by code_simp
  have ag: "agent_results ?ar = ?rs" by simp
  from c have c': "collect_scores (map snd (agent_results ?ar)) = [80, 61]" unfolding ag .
  note t = overall_score_floor_mean [of "[80, 61]" ?ar env_quiet, THEN conjunct2,
      THEN conjunct1, rule_format, OF z]
  show ?thesis unfolding t c' by (simp add: overall_of_def)
qed

subsection \<open>The overall score reported by the API\<close>

text \<open>
  Claim C10. When the background task of the API has completed an analysis, the overall
  score it stored is the score of the orchestrator's result with 0 replaced by 75, and
  the results endpoint returns that stored score: it never returns 0 for a completed
  analysis.
\<close>

theorem api_overall_score_never_zero:
  assumes run: "snd (run_analysis e agents w store rid u) = Inr store'"
    and ok: "get_analysis_results store' rid = Ok200 p"
  shows "overallScore p \<noteq> 0 \<and>
         (\<exists>res. snd (analyze_website e agents w u) = Inr res \<and>
                overallScore p = (if overall_score res = 0 then 75 else overall_score res)) \<and>
         (\<exists>en. map_of store' rid = Some en \<and> st_overall_score en = Some (overallScore p))"
proof -
  from run obtain entry where entry: "map_of store rid = Some entry"
    by (cases "map_of store rid") (auto simp: run_analysis_def)
  from ok have st: "\<exists>en. map_of store' rid = Some en \<and> st_status en = ''completed''"
    by (auto simp: get_analysis_results_def split: option.splits if_splits)
  show ?thesis
  proof (cases "ctor_fault e")
    case (Some m)
    with run entry have "store' = AList.update rid
        (entry\<lparr>st_status := ''error'', st_error := Some m, st_current_agent := None\<rparr>) store"
      by (auto simp: run_analysis_def Let_def)
    with st show ?thesis by (simp add: update_conv')
  next
    case None
    obtain w' out where aw: "analyze_website e agents w u = (w', out)"
      by (cases "analyze_website e agents w u")
    show ?thesis
    proof (cases out)
      case (Inl f)
      show ?thesis
      proof (cases f)
        case (CancelledError m)
        with run entry None aw Inl show ?thesis
          by (simp add: run_analysis_def Let_def)
      next
        case (Exception m)
        with run entry None aw Inl have "\<exists>en. store' = AList.update rid
            (en\<lparr>st_status := ''error'', st_error := Some m, st_current_agent := None\<rparr>) store"
          by (auto simp: run_analysis_def Let_def)
        with st show ?thesis by (auto simp add: update_conv')
      qed
    next
      case (Inr res)
      with run entry None aw ok show ?thesis
        by (auto simp: run_analysis_def Let_def get_analysis_results_def update_conv')
    qed
  qed
qed

theorem api_overall_score_never_zero_witness:
  "get_analysis_results
     (projr (snd (run_analysis env_quiet ANALYSIS_AGENTS world0
        (fst (start_analysis [] ''r1'' ''example.com'')) ''r1'' ''https://example.com''))) ''r1''
   = Ok200 \<lparr>overallScore = 75, report_text = ''All checks done.'',
        categoryScores = parse_category_scores ''All checks done.'', pdfAvailable = False\<rparr>
   \<and> overall_score (projr (snd (analyze_website env_quiet ANALYSIS_AGENTS world0
        ''https://example.com''))) = 0"
proof -
  let ?out = "run_analysis env_quiet ANALYSIS_AGENTS world0
           (fst (start_analysis [] ''r1'' ''example.com'')) ''r1'' ''https://example.com''"
  let ?p = "\<lparr>overallScore = 75, report_text = ''All checks done.'',
       categoryScores = parse_category_scores ''All checks done.'', pdfAvailable = False\<rparr>"
  have "\<not> isl (snd ?out)" by code_simp
  then have h1: "snd ?out = Inr (projr (snd ?out))" by simp
  have h2: "get_analysis_results (projr (snd ?out)) ''r1'' = Ok200 ?p" by code_simp
  have h3: "overall_score (projr (snd (analyze_website env_quiet ANALYSIS_AGENTS world0
        ''https://example.com''))) = 0" by code_simp
  from api_overall_score_never_zero [OF h1 h2] h2 h3 show ?thesis by simp
qed

subsection \<open>Regular-expression search\<close>

lemma startswith_drop_contains: "startswith (drop n s) p \<Longrightarrow> contains s p"
proof (induction s arbitrary: n)
  case Nil
  then show ?case by (simp add: startswith_def)
next
  case (Cons c cs)
  show ?case
  proof (cases n)
    case 0
    with Cons.prems show ?thesis by simp
  next
    case (Suc k)
    with Cons.prems have "startswith (drop k cs) p" by simp
    then show ?thesis using Cons.IH by simp
  qed
qed

lemma rmatch_Seq_nonempty:
  "rmatch (Seq a b) st \<noteq> [] \<longleftrightarrow> (\<exists>st' \<in> set (rmatch a st). rmatch b st' \<noteq> [])"
  by auto

lemma rmatch_Lit_nonempty: "rmatch (Lit l) (g, s) \<noteq> [] \<longleftrightarrow> startswith s l"
  by simp

lemma score_tail_contains:
  assumes "rmatch score_tail (g, t) \<noteq> []"
  shows "contains t ''score'' \<or> contains t ''rating''"
proof -
  from assms obtain n where
    "rmatch (Seq (Alt (Lit ''score'') (Lit ''rating''))
       (Seq (Star ColonSpace) (Seq (Group (Plus Digit)) (Opt (Lit ''/100''))))) (g, drop n t) \<noteq> []"
    unfolding score_tail_def rmatch_Seq_nonempty [of "LazyStar AnyChar"] by auto
  then have "rmatch (Alt (Lit ''score'') (Lit ''rating'')) (g, drop n t) \<noteq> []"
    unfolding rmatch_Seq_nonempty [of "Alt (Lit ''score'') (Lit ''rating'')"] by fastforce
  then have "startswith (drop n t) ''score'' \<or> startswith (drop n t) ''rating''"
    by (auto split: if_splits)
  then show ?thesis using startswith_drop_contains by blast
qed

lemma keyword_pattern_phrase:
  assumes "rmatch (Seq (Alt (Lit k1) (Alt (Lit k2) (Lit k3))) score_tail) (g, s) \<noteq> []"
  shows "\<exists>k \<in> {k1, k2, k3}. startswith s k \<and>
           (contains (drop (length k) s) ''score'' \<or> contains (drop (length k) s) ''rating'')"
proof -
  from assms obtain st' where st': "st' \<in> set (rmatch (Alt (Lit k1) (Alt (Lit k2) (Lit k3))) (g, s))"
    and ne: "rmatch score_tail st' \<noteq> []"
    unfolding rmatch_Seq_nonempty by blast
  from st' have "\<exists>k \<in> {k1, k2, k3}. startswith s k \<and> st' = (g, drop (length k) s)"
    by (auto split: if_splits)
  then obtain k where k: "k \<in> {k1, k2, k3}" "startswith s k" "st' = (g, drop (length k) s)" by blast
  with ne score_tail_contains [of g "drop (length k) s"] show ?thesis by blast
qed

lemma search_keyword_pattern_phrase:
  assumes "re_search (Seq (Alt (Lit k1) (Alt (Lit k2) (Lit k3))) score_tail) s = Some g"
  shows "has_phrase [k1, k2, k3] [''score'', ''rating''] s"
  using assms
proof (induction s)
  case Nil
  let ?p = "Seq (Alt (Lit k1) (Alt (Lit k2) (Lit k3))) score_tail"
  have "re_search ?p [] = None" if "rmatch ?p ([], []) = []"
    using that by (simp only: re_search.simps list.case)
  with Nil have ne: "rmatch ?p ([], []) \<noteq> []" by (metis option.distinct(1))
  from keyword_pattern_phrase [OF ne] show ?case by (auto simp: startswith_def)
next
  case (Cons c cs)
  let ?p = "Seq (Alt (Lit k1) (Alt (Lit k2) (Lit k3))) score_tail"
  show ?case
  proof (cases "rmatch ?p ([], c # cs) = []")
    case True
    then have "re_search ?p (c # cs) = re_search ?p cs"
      by (simp only: re_search.simps list.case)
    with Cons.prems Cons.IH show ?thesis by simp
  next
    case False
    from keyword_pattern_phrase [OF this] show ?thesis by auto
  qed
qed

lemma groups_extend:
  "(g', r) \<in> set (rmatch rx (g, s)) \<Longrightarrow> \<exists>ext. g' = g @ ext"
proof (induction rx arbitrary: g s g' r)
  case (Lit l)
  then show ?case by (simp split: if_splits)
next
  case (Star k)
  then show ?case by (simp only: rmatch.simps set_map) blast
next
  case (Plus k)
  then show ?case by (simp only: rmatch.simps set_map) blast
next
  case (LazyStar k)
  then show ?case by (simp only: rmatch.simps set_map) blast
next
  case (Seq a b)
  from Seq.prems obtain g1 r1 where 1: "(g1, r1) \<in> set (rmatch a (g, s))"
    and 2: "(g', r) \<in> set (rmatch b (g1, r1))"
    by (simp only: rmatch.simps set_concat set_map) fast
  from Seq.IH(1) [OF 1] Seq.IH(2) [OF 2] show ?case by auto
next
  case (Alt a b)
  from Alt.prems have "(g', r) \<in> set (rmatch a (g, s)) \<or> (g', r) \<in> set (rmatch b (g, s))"
    by (simp only: rmatch.simps set_append Un_iff)
  with Alt.IH show ?case by blast
next
  case (Opt a)
  from Opt.prems have "(g', r) \<in> set (rmatch a (g, s)) \<or> (g', r) = (g, s)"
    by (simp only: rmatch.simps set_append Un_iff list.set insert_iff empty_iff) blast
  with Opt.IH show ?case by auto
next
  case (Group a)
  from Group.prems obtain g1 where 1: "(g1, r) \<in> set (rmatch a (g, s))"
    and 2: "g' = g1 @ [take (length s - length r) s]"
    by (simp only: rmatch.simps set_map) fast
  from Group.IH [OF 1] 2 show ?case by auto
qed

lemma rmatch_Seq_mem:
  "x \<in> set (rmatch (Seq a b) st) \<longleftrightarrow> (\<exists>st' \<in> set (rmatch a st). x \<in> set (rmatch b st'))"
  by simp

lemma section_pattern_first_group:
  assumes "(g', r) \<in> set (rmatch (section_pattern c) ([], s))"
  shows "group g' 1 = ''1, 3''"
proof -
  define rest where "rest = Seq (Star Space) (Seq (Lit c) (Seq (LazyStar AnyChar)
     (Seq (Group (Plus Digit))
        (Seq (Star Space) (Seq (Lit ''/'') (Seq (Star Space) (Lit ''100'')))))))"
  have sp: "section_pattern c = Seq (Lit ''#'') (Seq (Group (Lit ''1, 3'')) rest)"
    by (simp add: section_pattern_def rest_def)
  from assms obtain st1 where st1: "st1 \<in> set (rmatch (Lit ''#'') ([], s))"
    and a: "(g', r) \<in> set (rmatch (Seq (Group (Lit ''1, 3'')) rest) st1)"
    unfolding sp rmatch_Seq_mem [of _ "Lit ''#''"] by blast
  from st1 obtain s1 where s1: "st1 = ([], s1)" by (simp split: if_splits)
  from a obtain st2 where st2: "st2 \<in> set (rmatch (Group (Lit ''1, 3'')) ([], s1))"
    and b: "(g', r) \<in> set (rmatch rest st2)"
    unfolding s1 rmatch_Seq_mem [of _ "Group (Lit ''1, 3'')"] by blast
  have gl: "rmatch (Group (Lit ''1, 3'')) ([], s1) =
      (if startswith s1 ''1, 3''
       then [([take (length s1 - length (drop 4 s1)) s1], drop 4 s1)] else [])"
    by (simp add: eval_nat_numeral)
  from st2 have sw: "startswith s1 ''1, 3''"
    and st2': "st2 = ([take (length s1 - length (drop 4 s1)) s1], drop 4 s1)"
    unfolding gl by (simp_all split: if_splits)
  from sw have t4: "take 4 s1 = ''1, 3''" by (simp add: startswith_def eval_nat_numeral)
  have "4 \<le> length s1"
  proof (rule ccontr)
    assume "\<not> 4 \<le> length s1"
    then have "length (take 4 s1) < 4" by simp
    with t4 show False by simp
  qed
  with t4 st2' have "st2 = ([''1, 3''], drop 4 s1)" by simp
  with b groups_extend [of g' r rest "[''1, 3'']" "drop 4 s1"]
  obtain ext where "g' = [''1, 3''] @ ext" by blast
  then show ?thesis by (simp add: group_def)
qed
lemma search_in_rmatch:
  "re_search rx s = Some g \<Longrightarrow> \<exists>n r. (g, r) \<in> set (rmatch rx ([], drop n s))"
proof (induction s)
  case Nil
  then show ?case
    by (cases "rmatch rx ([], [])") (auto simp only: re_search.simps list.case list.set drop.simps split: prod.splits)
next
  case (Cons c cs)
  show ?case
  proof (cases "rmatch rx ([], c # cs)")
    case Nil
    with Cons.prems have "re_search rx cs = Some g" by (simp only: re_search.simps list.case)
    with Cons.IH obtain n r where "(g, r) \<in> set (rmatch rx ([], drop n cs))" by blast
    then have "(g, r) \<in> set (rmatch rx ([], drop (Suc n) (c # cs)))" by simp
    then show ?thesis by blast
  next
    case (Cons st sts)
    with Cons.prems have "fst st = g"
      by (cases st) (simp only: re_search.simps list.case prod.case option.inject fst_conv)
    with Cons have "(g, snd st) \<in> set (rmatch rx ([], drop 0 (c # cs)))" by (cases st) simp
    then show ?thesis by blast
  qed
qed

subsection \<open>Category scores\<close>

lemma section_pattern_value:
  assumes "re_search (section_pattern c) s = Some g"
  shows "parse_int (group g 1) = None"
proof -
  from search_in_rmatch [OF assms] section_pattern_first_group
  have "group g 1 = ''1, 3''" by blast
  then show ?thesis by (simp add: parse_int_def is_digit_def)
qed

lemma category_score_fallback:
  assumes "re_search pattern s = None"
  shows "category_score s category pattern = 75"
proof (cases "re_search (section_pattern category) s")
  case None
  with assms show ?thesis by (simp add: category_score_def)
next
  case (Some g)
  with assms section_pattern_value [OF Some] show ?thesis by (simp add: category_score_def)
qed

lemma map_of_category_scores:
  assumes "(category, pattern) \<in> set categories"
  shows "map_of (parse_category_scores report) category =
           Some (category_score (lower report) category pattern)"
  using assms by (auto simp: parse_category_scores_def categories_def Let_def)

text \<open>
  Claim C6. Every report gets a value for each of the five categories. A category for
  which neither the keyword pattern nor the heading pattern matches gets exactly 75; in
  fact 75 is the value whenever the keyword pattern does not match, since a match of
  the heading pattern never yields a number. In particular a report without a
  performance score phrase (no \<open>performance\<close>, \<open>speed\<close> or \<open>loading\<close> followed by \<open>score\<close> or
  \<open>rating\<close>) has the performance score 75.
\<close>

theorem category_scores_default:
  "map fst (parse_category_scores report) =
     [''security'', ''onpage'', ''content'', ''performance'', ''indexability'']
   \<and> (\<forall>(category, pattern) \<in> set categories.
         re_search pattern (lower report) = None \<and>
         re_search (section_pattern category) (lower report) = None \<longrightarrow>
         map_of (parse_category_scores report) category = Some 75)
   \<and> (\<forall>(category, pattern) \<in> set categories.
         re_search pattern (lower report) = None \<longrightarrow>
         map_of (parse_category_scores report) category = Some 75)
   \<and> (\<not> has_phrase [''performance'', ''speed'', ''loading''] [''score'', ''rating'']
           (lower report) \<longrightarrow>
        map_of (parse_category_scores report) ''performance'' = Some 75)"
proof -
  have keys: "map fst (parse_category_scores report) =
     [''security'', ''onpage'', ''content'', ''performance'', ''indexability'']"
    by (simp add: parse_category_scores_def categories_def Let_def)
  have fallback: "map_of (parse_category_scores report) category = Some 75"
    if "(category, pattern) \<in> set categories" "re_search pattern (lower report) = None"
    for category pattern
    using that by (simp add: map_of_category_scores category_score_fallback)
  let ?perf = "Seq (Alt (Lit ''performance'') (Alt (Lit ''speed'') (Lit ''loading''))) score_tail"
  have mem: "(''performance'', ?perf) \<in> set categories"
    by (simp add: categories_def)
  have perf: "map_of (parse_category_scores report) ''performance'' = Some 75"
    if "\<not> has_phrase [''performance'', ''speed'', ''loading''] [''score'', ''rating'']
           (lower report)"
  proof -
    from that search_keyword_pattern_phrase have "re_search ?perf (lower report) = None"
      by (cases "re_search ?perf (lower report)") blast+
    with mem show ?thesis by (rule fallback)
  qed
  from keys fallback perf show ?thesis by blast
qed

theorem category_scores_default_witness:
  "map_of (parse_category_scores ''Security Score: 85/100. Fast pages.'') ''performance'' = Some 75
   \<and> map_of (parse_category_scores ''Security Score: 85/100. Fast pages.'') ''security'' = Some 85"
proof -
  have h: "\<not> has_phrase [''performance'', ''speed'', ''loading''] [''score'', ''rating'']
           (lower ''Security Score: 85/100. Fast pages.'')"
    by code_simp
  have s: "map_of (parse_category_scores ''Security Score: 85/100. Fast pages.'') ''security'' = Some 85"
    by code_simp
  from category_scores_default [of "''Security Score: 85/100. Fast pages.''"] h s
  show ?thesis by blast
qed

subsection \<open>Score parsing in the orchestrator\<close>

lemma digit_not_colonspace: "is_digit c \<Longrightarrow> \<not> in_class ColonSpace c"
  by (auto simp: is_digit_def is_space_def)

lemma rmatch_Lit_Seq:
  "rmatch (Seq (Lit l) x) (g, s) = (if startswith s l then rmatch x (g, drop (length l) s) else [])"
  by simp

lemma digits_group_none:
  assumes "case t of [] \<Rightarrow> True | c # _ \<Rightarrow> \<not> is_digit c"
  shows "rmatch (Group (Plus Digit)) (g, t) = []"
proof -
  from assms have "run Digit t = 0" by (cases t) (simp_all add: run_def)
  then show ?thesis by simp
qed

lemma digits_group_head:
  assumes "case t of [] \<Rightarrow> False | c # _ \<Rightarrow> is_digit c"
  shows "\<exists>rest. rmatch (Group (Plus Digit)) (g, t) =
           (g @ [takeWhile is_digit t], dropWhile is_digit t) # rest"
proof -
  define m where "m = run Digit t"
  from assms have m1: "1 \<le> m" by (cases t) (simp_all add: run_def m_def)
  have ml: "m \<le> length t" unfolding m_def run_def by (rule length_takeWhile_le)
  have tk: "take m t = takeWhile is_digit t" and dr: "drop m t = dropWhile is_digit t"
    unfolding m_def run_def
    by (simp_all add: takeWhile_eq_take [symmetric] dropWhile_eq_drop [symmetric] in_class.simps [abs_def])
  from m1 have "rev [1 ..< Suc m] = m # rev [1 ..< m]" by simp
  then have "rmatch (Group (Plus Digit)) (g, t) =
      (g @ [take (length t - length (drop m t)) t], drop m t) #
      map (\<lambda>(g', r). (g' @ [take (length t - length r) t], r))
        (map (\<lambda>n. (g, drop n t)) (rev [1 ..< m]))"
    by (simp add: m_def)
  moreover from ml have "length t - length (drop m t) = m" by simp
  ultimately show ?thesis using tk dr by simp
qed


lemma separators_then:
  assumes fail: "\<And>t. (case t of [] \<Rightarrow> False | c # _ \<Rightarrow> in_class ColonSpace c) \<Longrightarrow>
                   rmatch x (g, t) = []"
  shows "rmatch (Seq (Plus ColonSpace) x) (g, r) =
           (if (case r of [] \<Rightarrow> False | c # _ \<Rightarrow> in_class ColonSpace c)
            then rmatch x (g, dropWhile (in_class ColonSpace) r) else [])"
proof -
  define m where "m = run ColonSpace r"
  show ?thesis
  proof (cases "case r of [] \<Rightarrow> False | c # _ \<Rightarrow> in_class ColonSpace c")
    case False
    then have "m = 0" by (cases r) (simp_all add: m_def run_def)
    with False show ?thesis by (simp add: m_def)
  next
    case True
    then have m1: "1 \<le> m" by (cases r) (simp_all add: m_def run_def)
    have dr: "drop m r = dropWhile (in_class ColonSpace) r"
      unfolding m_def run_def by (simp add: dropWhile_eq_drop [symmetric])
    have inner: "rmatch x (g, drop n r) = []" if "n < m" for n
    proof -
      from that have nl: "n < length (takeWhile (in_class ColonSpace) r)"
        by (simp add: m_def run_def)
      then have "takeWhile (in_class ColonSpace) r ! n \<in> set (takeWhile (in_class ColonSpace) r)"
        by (rule nth_mem)
      then have "in_class ColonSpace (takeWhile (in_class ColonSpace) r ! n)"
        by (rule set_takeWhileD [THEN conjunct2])
      with nl have p: "in_class ColonSpace (r ! n)" by (simp add: takeWhile_nth)
      from nl have "n < length r"
        using length_takeWhile_le [of "in_class ColonSpace" r] by simp
      then have "drop n r = r ! n # drop (Suc n) r" by (rule Cons_nth_drop_Suc [symmetric])
      with p show ?thesis by (simp add: fail)
    qed
    then have "concat (map (rmatch x) (map (\<lambda>n. (g, drop n r)) (rev [1 ..< m]))) = []"
      by simp
    moreover from m1 have "rev [1 ..< Suc m] = m # rev [1 ..< m]" by simp
    ultimately have "rmatch (Seq (Plus ColonSpace) x) (g, r) = rmatch x (g, drop m r)"
      by (simp add: m_def)
    with True dr show ?thesis by simp
  qed
qed

lemma head_not:
  "\<not> (case xs of [] \<Rightarrow> False | c # _ \<Rightarrow> P c) \<Longrightarrow> (case xs of [] \<Rightarrow> True | c # _ \<Rightarrow> \<not> P c)"
  by (cases xs) simp_all

lemma score_pattern_unfold:
  "rmatch score_pattern ([], s) =
     (if startswith s ''score''
      then if (case drop 5 s of [] \<Rightarrow> False | c # _ \<Rightarrow> in_class ColonSpace c)
           then rmatch (Group (Plus Digit)) ([], dropWhile (in_class ColonSpace) (drop 5 s))
           else []
      else [])"
proof -
  have fail: "rmatch (Group (Plus Digit)) ([], t) = []"
    if "case t of [] \<Rightarrow> False | c # _ \<Rightarrow> in_class ColonSpace c" for t
    using that digit_not_colonspace by (intro digits_group_none) (auto split: list.splits)
  have len: "length ''score'' = 5" by simp
  note st = separators_then [of "Group (Plus Digit)" "[]" "drop 5 s", OF fail]
  show ?thesis
    by (simp only: score_pattern_def rmatch_Lit_Seq len st)
qed

lemma score_pattern_no_match:
  assumes "\<not> score_here s"
  shows "rmatch score_pattern ([], s) = []"
proof (cases "startswith s ''score'' \<and>
    (case drop 5 s of [] \<Rightarrow> False | c # _ \<Rightarrow> in_class ColonSpace c)")
  case False
  then have "\<not> startswith s ''score'' \<or>
      \<not> (case drop 5 s of [] \<Rightarrow> False | c # _ \<Rightarrow> in_class ColonSpace c)"
    by blast
  then show ?thesis
  proof
    assume "\<not> startswith s ''score''"
    then show ?thesis unfolding score_pattern_unfold by (simp only: if_False)
  next
    assume "\<not> (case drop 5 s of [] \<Rightarrow> False | c # _ \<Rightarrow> in_class ColonSpace c)"
    then show ?thesis unfolding score_pattern_unfold by (simp only: if_False if_cancel)
  qed
next
  case True
  with assms have "\<not> (case dropWhile (in_class ColonSpace) (drop 5 s) of [] \<Rightarrow> False
      | c # _ \<Rightarrow> is_digit c)"
    by (simp only: score_here_def simp_thms)
  then have "case dropWhile (in_class ColonSpace) (drop 5 s) of [] \<Rightarrow> True
      | c # _ \<Rightarrow> \<not> is_digit c"
    by (rule head_not)
  from digits_group_none [OF this] True show ?thesis
    unfolding score_pattern_unfold by (simp only: if_True)
qed

lemma score_pattern_match:
  assumes "score_here s"
  shows "\<exists>r rest. rmatch score_pattern ([], s) =
           ([takeWhile is_digit (dropWhile (in_class ColonSpace) (drop 5 s))], r) # rest"
proof -
  from assms have a: "startswith s ''score''"
    and b: "case drop 5 s of [] \<Rightarrow> False | c # _ \<Rightarrow> in_class ColonSpace c"
    and c: "case dropWhile (in_class ColonSpace) (drop 5 s) of [] \<Rightarrow> False | c # _ \<Rightarrow> is_digit c"
    by (simp_all only: score_here_def simp_thms)
  from a b have "rmatch score_pattern ([], s) =
      rmatch (Group (Plus Digit)) ([], dropWhile (in_class ColonSpace) (drop 5 s))"
    unfolding score_pattern_unfold by (simp only: if_True)
  with digits_group_head [OF c, of "[]"] show ?thesis
    by (simp only: append_Nil) blast
qed

lemma search_score_pattern:
  "re_search score_pattern s = map_option (\<lambda>ds. [ds]) (first_score s)"
proof (induction s)
  case Nil
  have "\<not> score_here []" by (simp add: score_here_def startswith_def)
  from score_pattern_no_match [OF this] show ?case
    by (simp only: re_search.simps list.case first_score.simps option.map)
next
  case (Cons c cs)
  show ?case
  proof (cases "score_here (c # cs)")
    case True
    from score_pattern_match [OF True] obtain r rest where
      "rmatch score_pattern ([], c # cs) =
         ([takeWhile is_digit (dropWhile (in_class ColonSpace) (drop 5 (c # cs)))], r) # rest"
      by blast
    with True show ?thesis
      by (simp only: re_search.simps list.case prod.case first_score.simps if_True option.map)
  next
    case False
    from score_pattern_no_match [OF False] False Cons.IH show ?thesis
      by (simp only: re_search.simps list.case first_score.simps if_False)
  qed
qed

lemma extract_score_first:
  "extract_score text = map_option int_of_digits (first_score (lower text))"
  by (cases "first_score (lower text)")
     (simp_all add: extract_score_def search_score_pattern group_def)

lemma first_score_digits: "first_score s = Some ds \<Longrightarrow> \<forall>c \<in> set ds. is_digit c"
proof (induction s)
  case Nil
  then show ?case by simp
next
  case (Cons c cs)
  show ?case
  proof (cases "score_here (c # cs)")
    case True
    with Cons.prems have "ds = takeWhile is_digit (dropWhile (in_class ColonSpace) (drop 5 (c # cs)))"
      by (simp only: first_score.simps if_True option.inject)
    then show ?thesis by (auto dest: set_takeWhileD)
  next
    case False
    with Cons.prems have "first_score cs = Some ds"
      by (simp only: first_score.simps if_False)
    then show ?thesis by (rule Cons.IH)
  qed
qed

lemma lower_char_digit: "is_digit c \<Longrightarrow> lower_char c = c"
  by (simp add: is_digit_def lower_char_def Let_def)

lemma first_score_plain:
  assumes "ds \<noteq> []" "list_all is_digit ds"
  shows "first_score (lower (''score: '' @ ds)) = Some ds"
proof -
  from assms(2) have "map lower_char ds = ds"
    by (induction ds) (simp_all add: lower_char_digit)
  moreover have "lower ''score: '' = ''score: ''" by code_simp
  ultimately have l: "lower (''score: '' @ ds) = ''score: '' @ ds"
    by (simp add: lower_def)
  from assms obtain c cs where ds: "ds = c # cs" and c: "is_digit c"
    by (cases ds) simp_all
  from c have nc: "\<not> in_class ColonSpace c" by (rule digit_not_colonspace)
  have sp: "in_class ColonSpace CHR '':''" "in_class ColonSpace CHR '' ''"
    by (simp_all add: is_space_def)
  from nc sp have dw: "dropWhile (in_class ColonSpace) ('': '' @ ds) = ds"
    by (simp add: ds)
  from assms(2) have tw: "takeWhile is_digit ds = ds"
    by (simp add: list_all_iff takeWhile_eq_all_conv)
  have d5: "drop 5 (''score: '' @ ds) = '': '' @ ds" by simp
  have "score_here (''score: '' @ ds)"
    unfolding score_here_def d5 dw using sp c by (simp add: startswith_def ds)
  then have "first_score (CHR ''s'' # ''core: '' @ ds) =
      Some (takeWhile is_digit (dropWhile (in_class ColonSpace) (drop 5 (CHR ''s'' # ''core: '' @ ds))))"
    by (simp only: first_score.simps append_Cons if_True)
  with d5 dw tw have "first_score (''score: '' @ ds) = Some ds" by simp
  with l show ?thesis by simp
qed

text \<open>
  Claim C4, as amended. The score parsing of the orchestrator looks, in the lower-cased
  text, for the first place where the keyword \<open>score\<close> is followed by at least one
  colon or white-space character and then a digit, and returns the integer written
  there; it returns none when there is no such place. The integer is at least 0 and it
  is not clamped: whatever digits follow \<open>score: \<close>, their value is returned as it is.
  The keyword \<open>rating\<close> is not recognised: \<open>Rating: 85/100\<close> gives none.
  \<open>Security Score: 85/100\<close> gives 85 and \<open>no numeric content\<close> gives none.
\<close>

theorem score_parsing_as_written:
  "extract_score text = map_option int_of_digits (first_score (lower text))
   \<and> (\<forall>n. extract_score text = Some n \<longrightarrow> 0 \<le> n)
   \<and> (\<forall>ds. ds \<noteq> [] \<and> list_all is_digit ds \<longrightarrow>
          extract_score (''score: '' @ ds) = Some (int_of_digits ds))
   \<and> extract_score ''Rating: 85/100'' = None
   \<and> extract_score ''Security Score: 85/100'' = Some 85
   \<and> extract_score ''no numeric content'' = None"
proof -
  have nonneg: "0 \<le> int_of_digits ds" if "first_score (lower text) = Some ds" for ds
    using first_score_digits [OF that] int_of_digits_nonneg [of 0 ds]
    by (simp add: int_of_digits_def)
  have plain: "\<forall>ds. ds \<noteq> [] \<and> list_all is_digit ds \<longrightarrow>
          extract_score (''score: '' @ ds) = Some (int_of_digits ds)"
  proof (intro allI impI)
    fix ds :: string
    assume "ds \<noteq> [] \<and> list_all is_digit ds"
    then have "first_score (lower (''score: '' @ ds)) = Some ds"
      by (intro first_score_plain) simp_all
    then show "extract_score (''score: '' @ ds) = Some (int_of_digits ds)"
      by (simp only: extract_score_first option.map)
  qed
  have e0: "extract_score ''Rating: 85/100'' = None" by code_simp
  have e1: "extract_score ''Security Score: 85/100'' = Some 85" by code_simp
  have e2: "extract_score ''no numeric content'' = None" by code_simp
  from nonneg have n: "\<forall>n. extract_score text = Some n \<longrightarrow> 0 \<le> n"
    by (auto simp: extract_score_first)
  from extract_score_first [of "text"] n plain e0 e1 e2 show ?thesis
    by - (intro conjI, assumption+)
qed

theorem score_parsing_as_written_witness:
  "extract_score (''score: '' @ ''250'') = Some 250
   \<and> extract_score ''SEO Score: 85/100'' = Some 85"
proof -
  have h: "''250'' \<noteq> [] \<and> list_all is_digit ''250''" by (simp add: is_digit_def)
  have v: "int_of_digits ''250'' = 250" by code_simp
  note t = score_parsing_as_written [of "''SEO Score: 85/100''"]
  from t [THEN conjunct2, THEN conjunct2, THEN conjunct1, rule_format, OF h] v
  have a: "extract_score (''score: '' @ ''250'') = Some 250" by simp
  have f: "first_score (lower ''SEO Score: 85/100'') = Some ''85''" by code_simp
  have w: "int_of_digits ''85'' = 85" by code_simp
  from t [THEN conjunct1] f w have b: "extract_score ''SEO Score: 85/100'' = Some 85" by simp
  from a b show ?thesis by simp
qed

text \<open>
  The claim as stated fails in three ways: a rating is not parsed, a score that follows
  the keyword at once is not parsed, and a score above 100 is not clamped.
\<close>

theorem score_parsing_counterexample:
  "extract_score ''Rating: 85/100'' = None
   \<and> extract_score ''score85'' = None
   \<and> extract_score ''Score: 250'' = Some 250"
  by code_simp

subsection \<open>The parallel stage\<close>

lemma log_agent_action_frame:
  assumes "log_agent_action e d rid agent action dets dur = Inr d'"
  shows "analysis_requests d' = analysis_requests d \<and> status_writes d' = status_writes d
    \<and> runner_calls d' = runner_calls d"
  using assms by (auto simp: log_agent_action_def split: option.splits)

lemma run_agent_frame:
  "analysis_requests (fst (run_agent e runners d name prompt sid rid)) = analysis_requests d
   \<and> status_writes (fst (run_agent e runners d name prompt sid rid)) = status_writes d"
  by (auto simp: run_agent_def log_agent_action_def Let_def split: sum.splits option.splits fault.splits)

lemma run_agent_result_indep:
  "snd (run_agent e runners d name prompt sid rid) = snd (run_agent e runners d' name prompt sid rid')"
  by (auto simp: run_agent_def log_agent_action_def Let_def split: sum.splits option.splits fault.splits)

lemma run_agent_name:
  "snd (run_agent e runners d name prompt sid rid) = Inr r \<Longrightarrow> agent_name r = name"
  by (auto simp: run_agent_def log_agent_action_def Let_def
      split: sum.splits option.splits fault.splits if_splits)

lemma gather_frame:
  "analysis_requests (fst (gather e runners d rid tasks)) = analysis_requests d
   \<and> status_writes (fst (gather e runners d rid tasks)) = status_writes d"
proof (induction tasks arbitrary: d)
  case Nil
  then show ?case by simp
next
  case (Cons t tasks)
  obtain name prompt sid where t: "t = (name, prompt, sid)" by (cases t)
  obtain d1 r where ra: "run_agent e runners d name prompt sid rid = (d1, r)"
    by (cases "run_agent e runners d name prompt sid rid")
  obtain d2 rs where g: "gather e runners d1 rid tasks = (d2, rs)"
    by (cases "gather e runners d1 rid tasks")
  from run_agent_frame [of e runners d name prompt sid rid] ra
  have "analysis_requests d1 = analysis_requests d" "status_writes d1 = status_writes d" by simp_all
  moreover from Cons.IH [of d1] g
  have "analysis_requests d2 = analysis_requests d1" "status_writes d2 = status_writes d1" by simp_all
  ultimately show ?case using t ra g by simp
qed

lemma gather_outcomes:
  "snd (gather e runners d rid tasks) =
     map (\<lambda>(name, prompt, sid). snd (run_agent e runners d0 name prompt sid rid)) tasks"
proof (induction tasks arbitrary: d)
  case Nil
  then show ?case by simp
next
  case (Cons t tasks)
  obtain name prompt sid where t: "t = (name, prompt, sid)" by (cases t)
  obtain d1 r where ra: "run_agent e runners d name prompt sid rid = (d1, r)"
    by (cases "run_agent e runners d name prompt sid rid")
  obtain d2 rs where g: "gather e runners d1 rid tasks = (d2, rs)"
    by (cases "gather e runners d1 rid tasks")
  from ra have "r = snd (run_agent e runners d0 name prompt sid rid)"
    using run_agent_result_indep [of e runners d name prompt sid rid d0 rid] by simp
  moreover from Cons.IH [of d1] g
  have "rs = map (\<lambda>(name, prompt, sid). snd (run_agent e runners d0 name prompt sid rid)) tasks"
    by simp
  ultimately show ?case using t ra g by simp
qed


lemma process_results_lookup:
  assumes "\<And>r. Inr r \<in> set outs \<Longrightarrow> agent_name r = a \<Longrightarrow> r = r0"
  shows "map_of (process_results outs acc) a =
           (if (\<exists>r. Inr r \<in> set outs \<and> agent_name r = a) then Some r0 else map_of acc a)"
  using assms
proof (induction outs acc rule: process_results.induct)
  case (1 acc)
  then show ?case by simp
next
  case (2 r rs acc)
  have ih: "map_of (process_results rs (AList.update (agent_name r) r acc)) a =
      (if (\<exists>r'. Inr r' \<in> set rs \<and> agent_name r' = a) then Some r0
       else map_of (AList.update (agent_name r) r acc) a)"
    using 2 by simp
  show ?case
  proof (cases "agent_name r = a")
    case True
    with 2 have "r = r0" by simp
    with True ih show ?thesis by (auto simp: update_conv')
  next
    case False
    with ih show ?thesis by (auto simp: update_conv')
  qed
next
  case (3 m rs acc)
  then show ?case by simp
next
  case (4 m rs acc)
  then show ?case by simp
qed

lemma process_results_distinct:
  "distinct (map fst acc) \<Longrightarrow> distinct (map fst (process_results outs acc))"
  by (induction outs acc rule: process_results.induct) (simp_all add: distinct_update)

lemma parallel_outcomes:
  "snd (gather e runners d rid (make_tasks u sid agents)) =
     map (\<lambda>a. snd (run_agent e runners d0 a (agent_prompt u a) (sid @ ''_'' @ a) rid0)) agents"
proof -
  have "snd (gather e runners d rid (make_tasks u sid agents)) =
     map (\<lambda>(name, prompt, s). snd (run_agent e runners d0 name prompt s rid)) (make_tasks u sid agents)"
    by (rule gather_outcomes)
  also have "\<dots> = map (\<lambda>a. snd (run_agent e runners d0 a (agent_prompt u a) (sid @ ''_'' @ a) rid)) agents"
    by (simp add: make_tasks_def comp_def)
  also have "\<dots> = map (\<lambda>a. snd (run_agent e runners d0 a (agent_prompt u a) (sid @ ''_'' @ a) rid0)) agents"
    using run_agent_result_indep [of e runners d0 _ _ _ rid d0 rid0] by simp
  finally show ?thesis .
qed

lemma parallel_lookup:
  "map_of (snd (run_parallel_analysis e runners agents d u rid sid)) a =
     (if a \<in> set agents
      then (case snd (run_agent e runners d0 a (agent_prompt u a) (sid @ ''_'' @ a) rid0) of
              Inr r \<Rightarrow> Some r | Inl m \<Rightarrow> None)
      else None)"
proof -
  let ?out = "\<lambda>a. snd (run_agent e runners d0 a (agent_prompt u a) (sid @ ''_'' @ a) rid0)"
  let ?outs = "snd (gather e runners d rid (make_tasks u sid agents))"
  have outs: "?outs = map ?out agents" by (rule parallel_outcomes)
  have m: "snd (run_parallel_analysis e runners agents d u rid sid) = process_results ?outs []"
    by (simp add: run_parallel_analysis_def Let_def split: prod.splits)
  have from_a: "?out a = Inr r \<and> a \<in> set agents" if "Inr r \<in> set ?outs" "agent_name r = a" for r
  proof -
    from that(1) outs obtain b where b: "b \<in> set agents" "?out b = Inr r" by auto
    from run_agent_name [OF b(2)] that(2) have "b = a" by simp
    with b show ?thesis by simp
  qed
  show ?thesis
  proof (cases "?out a")
    case (Inl msg)
    with from_a have none: "\<not> (\<exists>r. Inr r \<in> set ?outs \<and> agent_name r = a)" by auto
    have "map_of (process_results ?outs []) a =
        (if (\<exists>r. Inr r \<in> set ?outs \<and> agent_name r = a) then Some undefined else map_of [] a)"
      by (rule process_results_lookup) (use none in blast)
    with none Inl m show ?thesis by simp
  next
    case (Inr r0)
    have "map_of (process_results ?outs []) a =
        (if (\<exists>r. Inr r \<in> set ?outs \<and> agent_name r = a) then Some r0 else map_of [] a)"
      by (rule process_results_lookup) (use from_a Inr in auto)
    moreover have "(\<exists>r. Inr r \<in> set ?outs \<and> agent_name r = a) \<longleftrightarrow> a \<in> set agents"
    proof
      assume "\<exists>r. Inr r \<in> set ?outs \<and> agent_name r = a"
      with from_a show "a \<in> set agents" by blast
    next
      assume "a \<in> set agents"
      with outs Inr have "Inr r0 \<in> set ?outs" by force
      moreover from run_agent_name [OF Inr] have "agent_name r0 = a" .
      ultimately show "\<exists>r. Inr r \<in> set ?outs \<and> agent_name r = a" by blast
    qed
    ultimately show ?thesis using Inr m by simp
  qed
qed

lemma parallel_distinct:
  "distinct (map fst (snd (run_parallel_analysis e runners agents d u rid sid)))"
  by (simp add: run_parallel_analysis_def Let_def process_results_distinct split: prod.splits)

lemma run_agent_result_facts:
  assumes "snd (run_agent e runners d name prompt sid rid) = Inr r"
  shows "(success r \<longleftrightarrow> error r = None) \<and>
         (t_start e name \<le> t_done e name \<and> t_start e name \<le> t_fail e name \<longrightarrow> 0 \<le> duration_ms r)"
proof -
  have nn: "0 \<le> millis a b" if "a \<le> b" for a b
    using that by (simp add: millis_def py_int_def)
  from assms show ?thesis
    by (auto simp: run_agent_def log_agent_action_def Let_def nn
        split: sum.splits option.splits fault.splits if_splits)
qed


lemma run_agent_env_indep:
  assumes "runner_out e' a = runner_out e a" "log_fault e' a = log_fault e a"
    "t_start e' a = t_start e a" "t_done e' a = t_done e a" "t_fail e' a = t_fail e a"
  shows "snd (run_agent e' runners d' a prompt sid rid) = snd (run_agent e runners d a prompt sid rid)"
  using assms
  by (auto simp: run_agent_def log_agent_action_def Let_def split: sum.splits option.splits fault.splits)

lemma run_agent_fault_recorded:
  assumes "a \<in> set runners" "runner_out e a sid prompt = Inl (Exception msg)"
  shows "snd (run_agent e runners d a prompt sid rid) =
           (case log_fault e a ''analysis_error'' of
              None \<Rightarrow> Inr \<lparr>agent_name = a, success = False, result = [],
                           duration_ms = millis (t_start e a) (t_fail e a), error = Some msg\<rparr>
            | Some m \<Rightarrow> Inl (Exception m))"
  using assms
  by (auto simp: run_agent_def log_agent_action_def Let_def split: sum.splits option.splits fault.splits)

lemma run_agent_cancelled:
  assumes "a \<in> set runners" "runner_out e a sid prompt = Inl (CancelledError msg)"
  shows "snd (run_agent e runners d a prompt sid rid) = Inl (CancelledError msg)"
  using assms by (simp add: run_agent_def Let_def)

lemma run_agent_calls:
  "runner_calls (fst (run_agent e runners d name prompt sid rid)) =
     runner_calls d @ (if name \<in> set runners then [(name, prompt, sid)] else [])"
  by (auto simp: run_agent_def log_agent_action_def Let_def
      split: sum.splits option.splits fault.splits)

lemma gather_calls:
  "runner_calls (fst (gather e runners d rid tasks)) =
     runner_calls d @ filter (\<lambda>t. fst t \<in> set runners) tasks"
proof (induction tasks arbitrary: d)
  case Nil
  then show ?case by simp
next
  case (Cons t tasks)
  obtain name prompt sid where t: "t = (name, prompt, sid)" by (cases t)
  obtain d1 r where ra: "run_agent e runners d name prompt sid rid = (d1, r)"
    by (cases "run_agent e runners d name prompt sid rid")
  obtain d2 rs where g: "gather e runners d1 rid tasks = (d2, rs)"
    by (cases "gather e runners d1 rid tasks")
  from run_agent_calls [of e runners d name prompt sid rid] ra
  have "runner_calls d1 =
      runner_calls d @ (if name \<in> set runners then [(name, prompt, sid)] else [])"
    by simp
  moreover from Cons.IH [of d1] g
  have "runner_calls d2 = runner_calls d1 @ filter (\<lambda>t. fst t \<in> set runners) tasks"
    by simp
  ultimately show ?case using t ra g by simp
qed

text \<open>
  Claim C1, as amended. The fan-out has one settled outcome for every task, so it
  returns after all of them. The keys of the result map are names of configured
  agents; every entry is filed under its own agent's name and is a success exactly when
  it carries no error. Its duration is at least 0 when the clock readings of that agent
  do not go backwards. An agent whose runner raises an \<open>Exception\<close> is recorded as a
  failed result with the message when the store accepts the handler's error log; when
  that log write raises too, the exception leaves the task and the agent is missing
  from the map. An agent whose runner raises a \<open>CancelledError\<close> is missing from the map
  as well. The entry of an agent depends on that agent's own runner, log writes and
  clock only: whatever the other agents do, it is the same.
\<close>

theorem parallel_fan_out:
  assumes "m = snd (run_parallel_analysis e runners agents d u rid sid)"
  shows "length (snd (gather e runners d rid (make_tasks u sid agents))) = length agents
   \<and> set (map fst m) \<subseteq> set agents
   \<and> (\<forall>(k, r) \<in> set m.
         agent_name r = k \<and> (success r \<longleftrightarrow> error r = None) \<and>
         (t_start e k \<le> t_done e k \<and> t_start e k \<le> t_fail e k \<longrightarrow> 0 \<le> duration_ms r))
   \<and> (\<forall>a \<in> set agents. \<forall>msg.
         a \<in> set runners \<and>
         runner_out e a (sid @ ''_'' @ a) (agent_prompt u a) = Inl (Exception msg) \<longrightarrow>
         (log_fault e a ''analysis_error'' = None \<longrightarrow>
            map_of m a = Some \<lparr>agent_name = a, success = False, result = [],
                               duration_ms = millis (t_start e a) (t_fail e a),
                               error = Some msg\<rparr>) \<and>
         (log_fault e a ''analysis_error'' \<noteq> None \<longrightarrow> map_of m a = None))
   \<and> (\<forall>a \<in> set agents. \<forall>msg.
         a \<in> set runners \<and>
         runner_out e a (sid @ ''_'' @ a) (agent_prompt u a) = Inl (CancelledError msg) \<longrightarrow>
         map_of m a = None)
   \<and> (\<forall>a e' d'.
         runner_out e' a = runner_out e a \<and> log_fault e' a = log_fault e a \<and>
         t_start e' a = t_start e a \<and> t_done e' a = t_done e a \<and> t_fail e' a = t_fail e a \<longrightarrow>
         map_of (snd (run_parallel_analysis e' runners agents d' u rid sid)) a = map_of m a)"
proof -
  let ?out = "\<lambda>e a. snd (run_agent e runners d a (agent_prompt u a) (sid @ ''_'' @ a) rid)"
  have look: "map_of (snd (run_parallel_analysis e1 runners agents d1 u rid sid)) a =
      (if a \<in> set agents then (case ?out e1 a of Inr r \<Rightarrow> Some r | Inl m \<Rightarrow> None) else None)"
    for e1 d1 a
    by (rule parallel_lookup)
  have all: "length (snd (gather e runners d rid (make_tasks u sid agents))) = length agents"
    by (simp add: parallel_outcomes [of e runners d rid u sid agents d rid])
  have entry: "k \<in> set agents \<and> ?out e k = Inr r" if "(k, r) \<in> set m" for k r
  proof -
    from that assms parallel_distinct [of e runners agents d u rid sid]
    have "map_of m k = Some r" by simp
    with look [of e d k] assms show ?thesis
      by (auto split: if_splits sum.splits)
  qed
  have keys: "set (map fst m) \<subseteq> set agents"
    using entry by auto
  have entries: "\<forall>(k, r) \<in> set m.
         agent_name r = k \<and> (success r \<longleftrightarrow> error r = None) \<and>
         (t_start e k \<le> t_done e k \<and> t_start e k \<le> t_fail e k \<longrightarrow> 0 \<le> duration_ms r)"
  proof (clarify, intro conjI)
    fix k r assume kr: "(k, r) \<in> set m"
    from entry [OF kr] have o: "?out e k = Inr r" by simp
    from run_agent_name [OF o] show "agent_name r = k" .
    from run_agent_result_facts [OF o] show "success r \<longleftrightarrow> error r = None" by blast
    from run_agent_result_facts [OF o]
    show "t_start e k \<le> t_done e k \<and> t_start e k \<le> t_fail e k \<longrightarrow> 0 \<le> duration_ms r"
      by blast
  qed
  have faults: "\<forall>a \<in> set agents. \<forall>msg.
         a \<in> set runners \<and>
         runner_out e a (sid @ ''_'' @ a) (agent_prompt u a) = Inl (Exception msg) \<longrightarrow>
         (log_fault e a ''analysis_error'' = None \<longrightarrow>
            map_of m a = Some \<lparr>agent_name = a, success = False, result = [],
                               duration_ms = millis (t_start e a) (t_fail e a),
                               error = Some msg\<rparr>) \<and>
         (log_fault e a ''analysis_error'' \<noteq> None \<longrightarrow> map_of m a = None)"
  proof (intro ballI allI impI)
    fix a msg
    assume a: "a \<in> set agents"
      and f: "a \<in> set runners \<and>
        runner_out e a (sid @ ''_'' @ a) (agent_prompt u a) = Inl (Exception msg)"
    from f have "?out e a =
           (case log_fault e a ''analysis_error'' of
              None \<Rightarrow> Inr \<lparr>agent_name = a, success = False, result = [],
                           duration_ms = millis (t_start e a) (t_fail e a), error = Some msg\<rparr>
            | Some m \<Rightarrow> Inl (Exception m))"
      by (intro run_agent_fault_recorded) simp_all
    with a look [of e d a] assms
    show "(log_fault e a ''analysis_error'' = None \<longrightarrow>
            map_of m a = Some \<lparr>agent_name = a, success = False, result = [],
                               duration_ms = millis (t_start e a) (t_fail e a),
                               error = Some msg\<rparr>) \<and>
         (log_fault e a ''analysis_error'' \<noteq> None \<longrightarrow> map_of m a = None)"
      by (auto split: option.splits)
  qed
  have cancelled: "\<forall>a \<in> set agents. \<forall>msg.
         a \<in> set runners \<and>
         runner_out e a (sid @ ''_'' @ a) (agent_prompt u a) = Inl (CancelledError msg) \<longrightarrow>
         map_of m a = None"
  proof (intro ballI allI impI)
    fix a msg
    assume a: "a \<in> set agents"
      and f: "a \<in> set runners \<and>
        runner_out e a (sid @ ''_'' @ a) (agent_prompt u a) = Inl (CancelledError msg)"
    from f have "?out e a = Inl (CancelledError msg)"
      by (intro run_agent_cancelled) simp_all
    with a look [of e d a] assms show "map_of m a = None" by simp
  qed
  have iso: "\<forall>a e' d'.
         runner_out e' a = runner_out e a \<and> log_fault e' a = log_fault e a \<and>
         t_start e' a = t_start e a \<and> t_done e' a = t_done e a \<and> t_fail e' a = t_fail e a \<longrightarrow>
         map_of (snd (run_parallel_analysis e' runners agents d' u rid sid)) a = map_of m a"
  proof (intro allI impI)
    fix a and e' :: env and d'
    assume "runner_out e' a = runner_out e a \<and> log_fault e' a = log_fault e a \<and>
         t_start e' a = t_start e a \<and> t_done e' a = t_done e a \<and> t_fail e' a = t_fail e a"
    then have "?out e' a = ?out e a" by (intro run_agent_env_indep) simp_all
    with look [of e' d' a] look [of e d a] assms
    show "map_of (snd (run_parallel_analysis e' runners agents d' u rid sid)) a = map_of m a"
      by simp
  qed
  from all keys entries faults cancelled iso show ?thesis by (intro conjI)
qed

theorem parallel_fan_out_witness:
  "map_of (snd (run_parallel_analysis env_worker_fault (init_runners ANALYSIS_AGENTS)
       ANALYSIS_AGENTS (db world0) ''https://example.com'' ''ab12cd34'' ''seo_session_ab12cd34''))
     ''content_agent'' =
   Some \<lparr>agent_name = ''content_agent'', success = False, result = [], duration_ms = 125,
          error = Some ''boom''\<rparr>"
proof -
  note t = parallel_fan_out [OF refl, of env_worker_fault "init_runners ANALYSIS_AGENTS"
      "db world0" "''ab12cd34''" "''https://example.com''" "''seo_session_ab12cd34''"
      ANALYSIS_AGENTS, THEN conjunct2, THEN conjunct2, THEN conjunct2, THEN conjunct1,
      rule_format, of "''content_agent''" "''boom''", THEN conjunct1, rule_format]
  have a: "''content_agent'' \<in> set ANALYSIS_AGENTS" by (simp add: ANALYSIS_AGENTS_def)
  have b: "''content_agent'' \<in> set (init_runners ANALYSIS_AGENTS) \<and>
      runner_out env_worker_fault ''content_agent'' (''seo_session_ab12cd34'' @ ''_'' @ ''content_agent'')
        (agent_prompt ''https://example.com'' ''content_agent'') = Inl (Exception ''boom'')"
    by (simp add: ANALYSIS_AGENTS_def init_runners_def env_worker_fault_def)
  have c: "log_fault env_worker_fault ''content_agent'' ''analysis_error'' = None"
    by (simp add: env_worker_fault_def env_quiet_def)
  have ms: "millis (t_start env_worker_fault ''content_agent'') (t_fail env_worker_fault ''content_agent'') = 125"
    by (simp add: env_worker_fault_def env_quiet_def millis_def py_int_def)
  from t [OF a b c] ms show ?thesis by simp
qed

text \<open>
  The claim as stated fails in three ways in one run of the five agents. The runner of
  the content agent raises an \<open>Exception\<close> and the store refuses the handler's log
  write: the agent is not in the result map. The runner of the performance agent
  raises a \<open>CancelledError\<close>, with the store accepting every write of that agent: the
  agent is not in the result map. The clock is set back while the security agent
  runs: its entry has a negative duration.
\<close>

theorem parallel_fan_out_counterexample:
  "runner_out env_parallel_faults ''content_agent'' ''seo_session_ab12cd34_content_agent''
     (agent_prompt ''https://example.com'' ''content_agent'') = Inl (Exception ''boom'')
   \<and> map_of (snd (run_parallel_analysis env_parallel_faults (init_runners ANALYSIS_AGENTS)
        ANALYSIS_AGENTS (db world0) ''https://example.com'' ''ab12cd34'' ''seo_session_ab12cd34''))
      ''content_agent'' = None
   \<and> runner_out env_parallel_faults ''performance_agent''
       ''seo_session_ab12cd34_performance_agent''
       (agent_prompt ''https://example.com'' ''performance_agent'') = Inl (CancelledError [])
   \<and> log_fault env_parallel_faults ''performance_agent'' ''analysis_error'' = None
   \<and> map_of (snd (run_parallel_analysis env_parallel_faults (init_runners ANALYSIS_AGENTS)
        ANALYSIS_AGENTS (db world0) ''https://example.com'' ''ab12cd34'' ''seo_session_ab12cd34''))
      ''performance_agent'' = None
   \<and> map_option duration_ms
       (map_of (snd (run_parallel_analysis env_parallel_faults (init_runners ANALYSIS_AGENTS)
          ANALYSIS_AGENTS (db world0) ''https://example.com'' ''ab12cd34''
          ''seo_session_ab12cd34'')) ''security_agent'') = Some (- 750)"
  by code_simp

subsection \<open>The run of an analysis\<close>

lemma run_parallel_frame:
  assumes "run_parallel_analysis e runners agents d u rid sid = (d', rs)"
  shows "analysis_requests d' = analysis_requests d \<and> status_writes d' = status_writes d"
proof -
  from assms have "d' = fst (gather e runners d rid (make_tasks u sid agents))"
    by (auto simp: run_parallel_analysis_def Let_def split: prod.splits)
  with gather_frame show ?thesis by simp
qed

lemma run_parallel_calls:
  assumes "run_parallel_analysis e runners agents d u rid sid = (d', rs)"
    and "set agents \<subseteq> set runners"
  shows "runner_calls d' = runner_calls d @ make_tasks u sid agents"
proof -
  from assms(1) have "d' = fst (gather e runners d rid (make_tasks u sid agents))"
    by (auto simp: run_parallel_analysis_def Let_def split: prod.splits)
  moreover from assms(2) have "filter (\<lambda>a. a \<in> set runners) agents = agents"
    by (auto simp: filter_id_conv)
  then have "filter (\<lambda>t. fst t \<in> set runners) (make_tasks u sid agents) = make_tasks u sid agents"
    by (simp add: make_tasks_def filter_map comp_def)
  ultimately show ?thesis by (simp add: gather_calls)
qed

lemma generate_report_frame:
  assumes "generate_report e runners d u ars rid sid = (d', out)"
  shows "analysis_requests d' = analysis_requests d \<and> status_writes d' = status_writes d"
  using assms run_agent_frame [of e runners d "''report_agent''" "report_prompt u ars" "sid @ ''_report_agent''" rid]
  by (simp add: generate_report_def)

lemma run_agent_cancelled_only:
  assumes "snd (run_agent e runners d a prompt sid rid) = Inl (CancelledError m)"
  shows "runner_out e a sid prompt = Inl (CancelledError m)"
  using assms
  by (auto simp: run_agent_def log_agent_action_def Let_def
      split: sum.splits option.splits fault.splits if_splits)

lemma update_request_status_written:
  assumes "update_request_status e d rid st ar rp em = Inr (d', b)"
    and "map_of (analysis_requests d) rid = Some row"
  shows "status_writes d' = status_writes d @ [(rid, st)]
    \<and> (\<exists>row'. map_of (analysis_requests d') rid = Some row' \<and> col_status row' = st \<and>
          col_error_message row' = (if truthy em then em else col_error_message row) \<and>
          col_report_markdown row' = (if truthy rp then rp else col_report_markdown row))"
  using assms
  by (auto simp: update_request_status_def update_conv' split: option.splits)

lemma update_request_status_calls:
  assumes "update_request_status e d rid st ar rp em = Inr (d', b)"
  shows "runner_calls d' = runner_calls d"
  using assms by (auto simp: update_request_status_def split: option.splits)

lemma update_request_status_raises:
  "update_request_status e d rid st ar rp em = Inl m \<longleftrightarrow> update_fault e st = Some m"
  by (auto simp: update_request_status_def split: option.splits)

lemma report_succeeded_facts:
  assumes "report_succeeded e ar rep = (ar2, pf)"
  shows "status ar2 = ''completed'' \<and> request_id ar2 = request_id ar \<and> url ar2 = url ar"
  using assms by (auto simp: report_succeeded_def Let_def split: sum.splits if_splits)

lemma try_block_writes:
  assumes tb: "try_block e agents d ar0 sid = (d2, ar, f)"
    and row: "map_of (analysis_requests d) (request_id ar0) = Some row"
  shows "request_id ar = request_id ar0 \<and> url ar = url ar0
    \<and> (f = None \<longrightarrow>
          status_writes d2 = status_writes d @ [(request_id ar0, status ar)] \<and>
          (status ar = ''completed'' \<or> status ar = ''partial'') \<and>
          (\<exists>row'. map_of (analysis_requests d2) (request_id ar0) = Some row' \<and>
                  col_status row' = status ar))
    \<and> (f \<noteq> None \<longrightarrow>
          status_writes d2 = status_writes d \<and> analysis_requests d2 = analysis_requests d)
    \<and> (\<forall>m. f = Some (CancelledError m) \<longrightarrow>
          (\<exists>p. runner_out e ''report_agent'' (sid @ ''_report_agent'') p = Inl (CancelledError m)))"
proof -
  let ?rid = "request_id ar0"
  let ?rn = "init_runners agents"
  show ?thesis
  proof (cases "log_agent_action e d ?rid ''orchestrator'' ''parallel_analysis_start''
                  (Some (UrlDetail (url ar0))) None")
    case (Inl m)
    with tb show ?thesis by (auto simp: try_block_def Let_def)
  next
    case (Inr d1)
    note f1 = log_agent_action_frame [OF Inr]
    obtain dp results where rp: "run_parallel_analysis e ?rn agents d1 (url ar0) ?rid sid = (dp, results)"
      by (cases "run_parallel_analysis e ?rn agents d1 (url ar0) ?rid sid")
    note f2 = run_parallel_frame [OF rp]
    let ?ar1 = "ar0\<lparr>agent_results := results\<rparr>"
    show ?thesis
    proof (cases "log_agent_action e dp ?rid ''orchestrator'' ''report_generation_start'' None None")
      case (Inl m)
      with tb Inr rp f1 f2 show ?thesis by (auto simp: try_block_def Let_def)
    next
      case l2: (Inr d3)
      note f3 = log_agent_action_frame [OF l2]
      obtain d4 out where gr: "generate_report e ?rn d3 (url ar0) results ?rid sid = (d4, out)"
        by (cases "generate_report e ?rn d3 (url ar0) results ?rid sid")
      note f4 = generate_report_frame [OF gr]
      from f1 f2 f3 f4 have fr: "analysis_requests d4 = analysis_requests d"
        "status_writes d4 = status_writes d" by simp_all
      show ?thesis
      proof (cases out)
        case (Inl m)
        from gr Inl have ra: "snd (run_agent e ?rn d3 ''report_agent''
            (report_prompt (url ar0) results) (sid @ ''_report_agent'') ?rid) = Inl m"
          by (simp add: generate_report_def)
        have c: "\<forall>m'. m = CancelledError m' \<longrightarrow>
            (\<exists>p. runner_out e ''report_agent'' (sid @ ''_report_agent'') p = Inl (CancelledError m'))"
          using ra run_agent_cancelled_only by blast
        from tb Inr rp l2 gr Inl have "d2 = d4" "ar = ?ar1" "f = Some m"
          by (simp_all add: try_block_def Let_def)
        with fr c show ?thesis by simp
      next
        case rep: (Inr report_result)
        obtain ar2 pf where br: "(if success report_result
                                then report_succeeded e ?ar1 report_result
                                else (report_failed ?ar1, None)) = (ar2, pf)"
          by (cases "(if success report_result
                                then report_succeeded e ?ar1 report_result
                                else (report_failed ?ar1, None))")
        have a2: "(status ar2 = ''completed'' \<or> status ar2 = ''partial'') \<and>
            request_id ar2 = ?rid \<and> url ar2 = url ar0"
        proof (cases "success report_result")
          case True
          with br report_succeeded_facts [of e ?ar1 report_result ar2 pf] show ?thesis by simp
        next
          case False
          with br show ?thesis by (auto simp: report_failed_def)
        qed
        show ?thesis
        proof (cases pf)
          case (Some m)
          with tb Inr rp l2 gr rep br fr a2 show ?thesis by (auto simp: try_block_def Let_def)
        next
          case None
          let ?ar3 = "ar2\<lparr>total_duration_ms := millis (run_t0 e) (run_t1 e)\<rparr>"
          show ?thesis
          proof (cases "update_request_status e d4 ?rid (status ?ar3) (Some (summary_of ?ar3))
                          (final_report ?ar3) None")
            case (Inl m)
            with tb Inr rp l2 gr rep br None fr a2 show ?thesis
              by (auto simp: try_block_def Let_def)
          next
            case u: (Inr p)
            obtain d5 b where p: "p = (d5, b)" by (cases p)
            from row fr have "map_of (analysis_requests d4) ?rid = Some row" by simp
            from update_request_status_written [OF u [unfolded p] this] fr
            have w: "status_writes d5 = status_writes d @ [(?rid, status ?ar3)]"
              "\<exists>row'. map_of (analysis_requests d5) ?rid = Some row' \<and> col_status row' = status ?ar3"
              by auto
            from tb Inr rp l2 gr rep br None u p have "d2 = d5" "ar = ?ar3" "f = None"
              by (simp_all add: try_block_def Let_def)
            with w a2 show ?thesis by simp
          qed
        qed
      qed
    qed
  qed
qed

lemma create_request_facts:
  assumes "create_analysis_request e d u = Inr (d0, rid)"
  shows "rid = uuid8 e \<and> status_writes d0 = status_writes d @ [(rid, ''pending'')]
    \<and> runner_calls d0 = runner_calls d
    \<and> (\<exists>row. map_of (analysis_requests d0) rid = Some row \<and> col_status row = ''pending'' \<and>
          col_error_message row = None)"
proof -
  have "map_of (xs @ [(k, v)]) k = Some v" if "k \<notin> set (map fst xs)"
    for xs :: "(string \<times> request_row) list" and k v
    using that by (induction xs) auto
  with assms show ?thesis
    by (auto simp: create_analysis_request_def split: option.splits if_splits)
qed

lemma create_request_raises:
  assumes "create_analysis_request e d u = Inl m"
  shows "create_fault e = Some m \<or> uuid8 e \<in> set (map fst (analysis_requests d))"
  using assms by (auto simp: create_analysis_request_def split: option.splits if_splits)

lemma create_request_ok:
  assumes "create_fault e = None" "uuid8 e \<notin> set (map fst (analysis_requests d))"
  shows "\<exists>d0. create_analysis_request e d u = Inr (d0, uuid8 e)"
  using assms by (simp add: create_analysis_request_def)

lemma update_request_status_ok:
  assumes "update_fault e st = None"
  shows "\<exists>d' b. update_request_status e d rid st ar rp em = Inr (d', b)"
  using assms by (auto simp: update_request_status_def split: option.splits)

lemma create_sessions_ok:
  assumes "\<forall>s \<in> set ids. session_fault e s = None"
  shows "\<exists>ss. create_sessions e ss0 ids = (ss, None)"
  using assms by (induction ids arbitrary: ss0) auto

lemma analyze_website_unfold:
  assumes "create_analysis_request e (db w) u = Inr (d0, rid)"
    and "update_request_status e d0 rid ''analyzing'' None None None = Inr (d1, b)"
    and "create_sessions e (sessions w) (session_ids (''seo_session_'' @ rid) agents) = (ss, None)"
    and "try_block e agents d1 (initial_result u rid) (''seo_session_'' @ rid) = (d2, ar, f)"
  shows "analyze_website e agents w u =
    (case f of
       None \<Rightarrow> (w\<lparr>db := d2, sessions := ss\<rparr>, Inr ar)
     | Some (CancelledError m) \<Rightarrow> (w\<lparr>db := d2, sessions := ss\<rparr>, Inl (CancelledError m))
     | Some (Exception msg) \<Rightarrow>
         (case update_request_status e d2 rid ''failed'' None None (Some msg) of
            Inl m \<Rightarrow> (w\<lparr>db := d2, sessions := ss\<rparr>, Inl (Exception m))
          | Inr (d3, _) \<Rightarrow>
              (w\<lparr>db := d3, sessions := ss\<rparr>,
               Inr (ar\<lparr>status := ''failed'',
                       total_duration_ms := millis (run_t0 e) (run_tfail e)\<rparr>))))"
  using assms by (simp add: analyze_website_def Let_def split: option.splits fault.splits)




text \<open>
  Claim C3, as amended. The writes of a job's status during a run are a prefix of
  \<open>pending\<close>, \<open>analyzing\<close>, and one of \<open>completed\<close>, \<open>partial\<close>, \<open>failed\<close>, each written at
  most once and nothing after the last. When \<open>analyze_website\<close> returns its result the
  sequence is complete, and its last status is the one of the result and of the job's
  row. When \<open>analyze_website\<close> ends with an exception no terminal status has been
  written: either no job has been created and the store is as it was, or the job's row
  is left at \<open>pending\<close> or at \<open>analyzing\<close>, the last status written.
\<close>

theorem job_status_sequence:
  "\<exists>suffix.
     status_writes (db (fst (analyze_website e agents w u))) =
       status_writes (db w) @ map (Pair (uuid8 e)) suffix
     \<and> (suffix = [] \<or> suffix = [''pending''] \<or> suffix = [''pending'', ''analyzing''] \<or>
        (\<exists>t. (t = ''completed'' \<or> t = ''partial'' \<or> t = ''failed'') \<and>
             suffix = [''pending'', ''analyzing'', t]))
     \<and> (\<forall>r. snd (analyze_website e agents w u) = Inr r \<longrightarrow>
          suffix = [''pending'', ''analyzing'', status r] \<and>
          (\<exists>row. map_of (analysis_requests (db (fst (analyze_website e agents w u)))) (uuid8 e)
                   = Some row \<and> col_status row = status r))
     \<and> (\<forall>f. snd (analyze_website e agents w u) = Inl f \<longrightarrow>
          (suffix = [] \<and> db (fst (analyze_website e agents w u)) = db w) \<or>
          ((suffix = [''pending''] \<or> suffix = [''pending'', ''analyzing'']) \<and>
           (\<exists>row. map_of (analysis_requests (db (fst (analyze_website e agents w u)))) (uuid8 e)
                    = Some row \<and> col_status row = last suffix)))"
proof (cases "create_analysis_request e (db w) u")
  case (Inl m)
  then have "analyze_website e agents w u = (w, Inl (Exception m))"
    by (simp add: analyze_website_def)
  then show ?thesis by (intro exI [of _ "[]"]) simp
next
  case (Inr p)
  obtain d0 rid where p: "p = (d0, rid)" by (cases p)
  note c = Inr [unfolded p]
  from create_request_facts [OF c] obtain row0 where rid: "rid = uuid8 e"
    and w0: "status_writes d0 = status_writes (db w) @ [(rid, ''pending'')]"
    and r0: "map_of (analysis_requests d0) rid = Some row0" "col_status row0 = ''pending''"
    by blast
  show ?thesis
  proof (cases "update_request_status e d0 rid ''analyzing'' None None None")
    case (Inl m)
    with c have "analyze_website e agents w u = (w\<lparr>db := d0\<rparr>, Inl (Exception m))"
      by (simp add: analyze_website_def)
    with w0 r0 rid show ?thesis by (intro exI [of _ "[''pending'']"]) simp
  next
    case a: (Inr q)
    obtain d1 b where q: "q = (d1, b)" by (cases q)
    note a = a [unfolded q]
    from update_request_status_written [OF a r0(1)] w0 obtain row1 where
      w1: "status_writes d1 = status_writes (db w) @ [(rid, ''pending''), (rid, ''analyzing'')]"
      and r1: "map_of (analysis_requests d1) rid = Some row1" "col_status row1 = ''analyzing''"
      by auto
    obtain ss sf where s: "create_sessions e (sessions w)
        (session_ids (''seo_session_'' @ rid) agents) = (ss, sf)"
      by (cases "create_sessions e (sessions w) (session_ids (''seo_session_'' @ rid) agents)")
    show ?thesis
    proof (cases sf)
      case (Some m)
      with c a s have "analyze_website e agents w u = (w\<lparr>db := d1, sessions := ss\<rparr>, Inl m)"
        by (simp add: analyze_website_def)
      with w1 r1 rid show ?thesis by (intro exI [of _ "[''pending'', ''analyzing'']"]) simp
    next
      case None
      note s = s [unfolded None]
      obtain d2 ar f where t: "try_block e agents d1 (initial_result u rid)
          (''seo_session_'' @ rid) = (d2, ar, f)"
        by (cases "try_block e agents d1 (initial_result u rid) (''seo_session_'' @ rid)")
      have rq: "request_id (initial_result u rid) = rid" by (simp add: initial_result_def)
      note tw = try_block_writes [OF t, unfolded rq, OF r1(1)]
      note aw = analyze_website_unfold [OF c a s t]
      show ?thesis
      proof (cases f)
        case None
        with tw obtain row' where
          w2: "status_writes d2 = status_writes d1 @ [(rid, status ar)]"
          and st: "status ar = ''completed'' \<or> status ar = ''partial''"
          and r2: "map_of (analysis_requests d2) rid = Some row'" "col_status row' = status ar"
          by auto
        from aw None have "analyze_website e agents w u = (w\<lparr>db := d2, sessions := ss\<rparr>, Inr ar)"
          by simp
        with w1 w2 st r2 rid show ?thesis
          by (intro exI [of _ "[''pending'', ''analyzing'', status ar]"]) auto
      next
        case (Some x)
        with tw have w2: "status_writes d2 = status_writes d1"
          and q2: "analysis_requests d2 = analysis_requests d1" by auto
        from r1 q2 have r2: "map_of (analysis_requests d2) rid = Some row1" by simp
        show ?thesis
        proof (cases x)
          case (CancelledError m)
          with aw Some have "analyze_website e agents w u =
              (w\<lparr>db := d2, sessions := ss\<rparr>, Inl (CancelledError m))"
            by simp
          with w1 w2 r1 r2 rid show ?thesis
            by (intro exI [of _ "[''pending'', ''analyzing'']"]) simp
        next
          case (Exception msg)
          show ?thesis
          proof (cases "update_request_status e d2 rid ''failed'' None None (Some msg)")
            case (Inl m)
            with aw Some Exception have "analyze_website e agents w u =
                (w\<lparr>db := d2, sessions := ss\<rparr>, Inl (Exception m))"
              by simp
            with w1 w2 r1 r2 rid show ?thesis
              by (intro exI [of _ "[''pending'', ''analyzing'']"]) simp
          next
            case uf: (Inr q3)
            obtain d3 b3 where q3: "q3 = (d3, b3)" by (cases q3)
            from update_request_status_written [OF uf [unfolded q3] r2] obtain row3 where
              w3: "status_writes d3 = status_writes d2 @ [(rid, ''failed'')]"
              and r3: "map_of (analysis_requests d3) rid = Some row3" "col_status row3 = ''failed''"
              by auto
            from aw Some Exception uf q3 have "analyze_website e agents w u =
                (w\<lparr>db := d3, sessions := ss\<rparr>,
                 Inr (ar\<lparr>status := ''failed'',
                         total_duration_ms := millis (run_t0 e) (run_tfail e)\<rparr>))"
              by simp
            with w1 w2 w3 r3 rid show ?thesis
              by (intro exI [of _ "[''pending'', ''analyzing'', ''failed'']"]) auto
          qed
        qed
      qed
    qed
  qed
qed

theorem job_status_sequence_witness:
  "\<not> isl (snd (analyze_website env_quiet ANALYSIS_AGENTS world0 ''https://example.com''))
   \<and> status_writes (db (fst (analyze_website env_quiet ANALYSIS_AGENTS world0 ''https://example.com'')))
     = [(''ab12cd34'', ''pending''), (''ab12cd34'', ''analyzing''),
        (''ab12cd34'', status (projr (snd (analyze_website env_quiet ANALYSIS_AGENTS world0
            ''https://example.com''))))]"
proof -
  let ?aw = "analyze_website env_quiet ANALYSIS_AGENTS world0 ''https://example.com''"
  have r: "\<not> isl (snd ?aw)" by code_simp
  then have e: "snd ?aw = Inr (projr (snd ?aw))" by simp
  from job_status_sequence [of env_quiet ANALYSIS_AGENTS world0 "''https://example.com''"]
  obtain suffix where
    1: "status_writes (db (fst ?aw)) = status_writes (db world0) @ map (Pair (uuid8 env_quiet)) suffix"
    and 2: "\<forall>r. snd ?aw = Inr r \<longrightarrow> suffix = [''pending'', ''analyzing'', status r] \<and>
          (\<exists>row. map_of (analysis_requests (db (fst ?aw))) (uuid8 env_quiet) = Some row \<and>
                 col_status row = status r)"
    by blast
  from 2 e have 3: "suffix = [''pending'', ''analyzing'', status (projr (snd ?aw))]" by blast
  have id: "uuid8 env_quiet = ''ab12cd34''" "status_writes (db world0) = []"
    by (simp_all add: env_quiet_def world0_def)
  from r show ?thesis unfolding 1 3 id by simp
qed

text \<open>
  The claim as stated fails when the run ends with an exception. With the store lost
  during the run, the first log entry of the guarded block raises, the handler's write
  of \<open>failed\<close> raises as well, and the job stays at \<open>analyzing\<close> for good; with the
  write of \<open>analyzing\<close> refused the job stays at \<open>pending\<close>; with the store unavailable
  from the start there is no job and no status at all.
\<close>

theorem job_status_sequence_counterexample:
  "isl (snd (analyze_website env_store_lost ANALYSIS_AGENTS world0 ''https://example.com''))
   \<and> status_writes (db (fst (analyze_website env_store_lost ANALYSIS_AGENTS world0
        ''https://example.com'')))
     = [(''ab12cd34'', ''pending''), (''ab12cd34'', ''analyzing'')]
   \<and> isl (snd (analyze_website env_analyzing_refused ANALYSIS_AGENTS world0
        ''https://example.com''))
   \<and> status_writes (db (fst (analyze_website env_analyzing_refused ANALYSIS_AGENTS world0
        ''https://example.com''))) = [(''ab12cd34'', ''pending'')]
   \<and> isl (snd (analyze_website env_store_down ANALYSIS_AGENTS world0 ''https://example.com''))
   \<and> status_writes (db (fst (analyze_website env_store_down ANALYSIS_AGENTS world0
        ''https://example.com''))) = []"
  by code_simp

text \<open>
  Claim C7, as amended. Let the job be otherwise progressing: the store accepts the
  request, the status writes and the log entries of the orchestrator and of the report
  agent, and the sessions can be created. When the runner of the report agent raises
  an \<open>Exception\<close>, the run returns its result with the status \<open>partial\<close> and the
  placeholder report, which are also written to the store; nothing is raised to the
  caller. When the runner of the report agent raises a \<open>CancelledError\<close>, the fault is
  not recovered: it is raised to the caller and the job's row is left at \<open>analyzing\<close>.
\<close>

theorem synthesis_fault_partial:
  assumes "create_fault e = None"
    and "uuid8 e \<notin> set (map fst (analysis_requests (db w)))"
    and "update_fault e ''analyzing'' = None"
    and "\<forall>s \<in> set (session_ids (''seo_session_'' @ uuid8 e) agents). session_fault e s = None"
    and "\<forall>action. log_fault e ''orchestrator'' action = None"
    and "log_fault e ''report_agent'' ''analysis_error'' = None"
    and "update_fault e ''partial'' = None"
  shows "((\<forall>p. runner_out e ''report_agent'' (''seo_session_'' @ uuid8 e @ ''_report_agent'') p
             = Inl (Exception msg)) \<longrightarrow>
      (\<exists>r row.
         snd (analyze_website e agents w u) = Inr r \<and> status r = ''partial''
         \<and> final_report r = Some ''Report generation failed. See individual agent results.''
         \<and> map_of (analysis_requests (db (fst (analyze_website e agents w u)))) (uuid8 e) = Some row
         \<and> col_status row = ''partial''
         \<and> col_report_markdown row =
             Some ''Report generation failed. See individual agent results.''))
   \<and> ((\<forall>p. runner_out e ''report_agent'' (''seo_session_'' @ uuid8 e @ ''_report_agent'') p
             = Inl (CancelledError msg)) \<longrightarrow>
      snd (analyze_website e agents w u) = Inl (CancelledError msg)
      \<and> (\<exists>row.
           map_of (analysis_requests (db (fst (analyze_website e agents w u)))) (uuid8 e) = Some row
           \<and> col_status row = ''analyzing''))"
proof -
  let ?rid = "uuid8 e"
  let ?sid = "''seo_session_'' @ ?rid"
  let ?rn = "init_runners agents"
  from create_request_ok [OF assms(1,2)] obtain d0 where
    c: "create_analysis_request e (db w) u = Inr (d0, ?rid)" by blast
  from create_request_facts [OF c] obtain row0 where
    r0: "map_of (analysis_requests d0) ?rid = Some row0" by blast
  from update_request_status_ok [OF assms(3)] obtain d1 b where
    a: "update_request_status e d0 ?rid ''analyzing'' None None None = Inr (d1, b)" by blast
  from update_request_status_written [OF a r0] obtain row1 where
    r1: "map_of (analysis_requests d1) ?rid = Some row1" "col_status row1 = ''analyzing''"
    by auto
  from create_sessions_ok [OF assms(4)] obtain ss where
    s: "create_sessions e (sessions w) (session_ids ?sid agents) = (ss, None)"
    by blast
  from assms(5) obtain da where
    l1: "log_agent_action e d1 ?rid ''orchestrator'' ''parallel_analysis_start''
           (Some (UrlDetail u)) None = Inr da"
    by (simp add: log_agent_action_def)
  obtain dp results where rp: "run_parallel_analysis e ?rn agents da u ?rid ?sid = (dp, results)"
    by (cases "run_parallel_analysis e ?rn agents da u ?rid ?sid")
  from assms(5) obtain dc where
    l2: "log_agent_action e dp ?rid ''orchestrator'' ''report_generation_start'' None None = Inr dc"
    by (simp add: log_agent_action_def)
  obtain d4 out where gr: "generate_report e ?rn dc u results ?rid ?sid = (d4, out)"
    by (cases "generate_report e ?rn dc u results ?rid ?sid")
  from log_agent_action_frame [OF l1] run_parallel_frame [OF rp] log_agent_action_frame [OF l2]
    generate_report_frame [OF gr] r1
  have r4: "map_of (analysis_requests d4) ?rid = Some row1" by simp
  have recovered: "\<exists>r row.
         snd (analyze_website e agents w u) = Inr r \<and> status r = ''partial''
         \<and> final_report r = Some ''Report generation failed. See individual agent results.''
         \<and> map_of (analysis_requests (db (fst (analyze_website e agents w u)))) ?rid = Some row
         \<and> col_status row = ''partial''
         \<and> col_report_markdown row =
             Some ''Report generation failed. See individual agent results.''"
    if h: "\<forall>p. runner_out e ''report_agent'' (?sid @ ''_report_agent'') p = Inl (Exception msg)"
  proof -
    let ?rep = "\<lparr>agent_name = ''report_agent'', success = False, result = [],
                  duration_ms = millis (t_start e ''report_agent'') (t_fail e ''report_agent''),
                  error = Some msg\<rparr>"
    from h have "runner_out e ''report_agent'' (?sid @ ''_report_agent'') (report_prompt u results)
        = Inl (Exception msg)" by blast
    with assms(6) gr have out: "out = Inr ?rep"
      by (simp add: generate_report_def run_agent_def init_runners_def log_agent_action_def Let_def)
    let ?ar3 = "(report_failed ((initial_result u ?rid)\<lparr>agent_results := results\<rparr>))
                  \<lparr>total_duration_ms := millis (run_t0 e) (run_t1 e)\<rparr>"
    have st3: "status ?ar3 = ''partial''"
      "final_report ?ar3 = Some ''Report generation failed. See individual agent results.''"
      by (simp_all add: report_failed_def)
    from update_request_status_ok [OF assms(7)] obtain d5 b5 where
      uf: "update_request_status e d4 ?rid ''partial'' (Some (summary_of ?ar3))
             (Some ''Report generation failed. See individual agent results.'') None = Inr (d5, b5)"
      by blast
    from update_request_status_written [OF uf r4] obtain row5 where
      r5: "map_of (analysis_requests d5) ?rid = Some row5" "col_status row5 = ''partial''"
        "col_report_markdown row5 = Some ''Report generation failed. See individual agent results.''"
      by (auto simp: truthy_def)
    have t: "try_block e agents d1 (initial_result u ?rid) ?sid = (d5, ?ar3, None)"
      using l1 rp l2 gr out uf st3
      by (simp add: try_block_def Let_def initial_result_def)
    from analyze_website_unfold [OF c a s t]
    have "analyze_website e agents w u = (w\<lparr>db := d5, sessions := ss\<rparr>, Inr ?ar3)" by simp
    with r5 st3 show ?thesis by (intro exI [of _ ?ar3] exI [of _ row5]) simp
  qed
  have raised: "snd (analyze_website e agents w u) = Inl (CancelledError msg)
      \<and> (\<exists>row.
           map_of (analysis_requests (db (fst (analyze_website e agents w u)))) ?rid = Some row
           \<and> col_status row = ''analyzing'')"
    if h: "\<forall>p. runner_out e ''report_agent'' (?sid @ ''_report_agent'') p
             = Inl (CancelledError msg)"
  proof -
    from h have "runner_out e ''report_agent'' (?sid @ ''_report_agent'') (report_prompt u results)
        = Inl (CancelledError msg)" by blast
    with gr have out: "out = Inl (CancelledError msg)"
      by (simp add: generate_report_def run_agent_def init_runners_def Let_def)
    have t: "try_block e agents d1 (initial_result u ?rid) ?sid =
        (d4, (initial_result u ?rid)\<lparr>agent_results := results\<rparr>, Some (CancelledError msg))"
      using l1 rp l2 gr out
      by (simp add: try_block_def Let_def initial_result_def)
    from analyze_website_unfold [OF c a s t]
    have "analyze_website e agents w u =
        (w\<lparr>db := d4, sessions := ss\<rparr>, Inl (CancelledError msg))" by simp
    with r4 r1 show ?thesis by simp
  qed
  from recovered raised show ?thesis by (simp add: append_assoc [symmetric] del: append_assoc)
qed

theorem synthesis_fault_partial_witness:
  "(\<exists>r. snd (analyze_website env_report_fault ANALYSIS_AGENTS world0 ''https://example.com'') = Inr r
      \<and> status r = ''partial''
      \<and> final_report r = Some ''Report generation failed. See individual agent results.'')
   \<and> snd (analyze_website env_report_cancelled ANALYSIS_AGENTS world0 ''https://example.com'') =
       Inl (CancelledError [])"
proof -
  have "\<exists>r row.
     snd (analyze_website env_report_fault ANALYSIS_AGENTS world0 ''https://example.com'') = Inr r
     \<and> status r = ''partial''
     \<and> final_report r = Some ''Report generation failed. See individual agent results.''
     \<and> map_of (analysis_requests (db (fst (analyze_website env_report_fault ANALYSIS_AGENTS world0
          ''https://example.com'')))) (uuid8 env_report_fault) = Some row
     \<and> col_status row = ''partial''
     \<and> col_report_markdown row = Some ''Report generation failed. See individual agent results.''"
    by (rule synthesis_fault_partial [where msg = "''model overloaded''" and e = env_report_fault,
          THEN conjunct1, rule_format])
       (simp_all add: env_report_fault_def env_quiet_def world0_def)
  then have first: "\<exists>r.
     snd (analyze_website env_report_fault ANALYSIS_AGENTS world0 ''https://example.com'') = Inr r
     \<and> status r = ''partial''
     \<and> final_report r = Some ''Report generation failed. See individual agent results.''"
    by blast
  have "snd (analyze_website env_report_cancelled ANALYSIS_AGENTS world0 ''https://example.com'') =
       Inl (CancelledError [])
      \<and> (\<exists>row.
           map_of (analysis_requests (db (fst (analyze_website env_report_cancelled ANALYSIS_AGENTS
             world0 ''https://example.com'')))) (uuid8 env_report_cancelled) = Some row
           \<and> col_status row = ''analyzing'')"
    by (rule synthesis_fault_partial [where msg = "[]" and e = env_report_cancelled,
          THEN conjunct2, rule_format])
       (simp_all add: env_report_cancelled_def env_quiet_def world0_def)
  with first show ?thesis by blast
qed

text \<open>
  The claim as stated fails when the report agent is cancelled while everything else
  works: the run ends with the \<open>CancelledError\<close>, no result is returned, and the only
  statuses ever written are \<open>pending\<close> and \<open>analyzing\<close>.
\<close>

theorem synthesis_fault_partial_counterexample:
  "runner_out env_report_cancelled ''report_agent'' ''seo_session_ab12cd34_report_agent'' [] =
     Inl (CancelledError [])
   \<and> snd (analyze_website env_report_cancelled ANALYSIS_AGENTS world0 ''https://example.com'') =
     Inl (CancelledError [])
   \<and> status_writes (db (fst (analyze_website env_report_cancelled ANALYSIS_AGENTS world0
        ''https://example.com'')))
     = [(''ab12cd34'', ''pending''), (''ab12cd34'', ''analyzing'')]"
  by code_simp

subsection \<open>Tracing of a run\<close>

text \<open>
  Claim C8, as amended. A run of \<open>analyze_website\<close> leaves the tracer as it was, whatever
  faults occur inside the run and whether it returns or raises: the orchestrator never
  calls the tracer, so the run opens no trace, closes none and records no span. Tracing
  is left to a caller: \<open>log_analysis_start\<close> opens exactly one trace and records no
  span, and \<open>log_analysis_complete\<close> closes the current trace without opening another
  and records no span.
\<close>

theorem run_leaves_tracer:
  "tracer (fst (analyze_website e agents w u)) = tracer w
   \<and> trace_id_counter (tracer (fst (analyze_website e agents w u))) = trace_id_counter (tracer w)
   \<and> current_trace_id (tracer (fst (analyze_website e agents w u))) = current_trace_id (tracer w)
   \<and> spans (tracer (fst (analyze_website e agents w u))) = spans (tracer w)
   \<and> trace_id_counter (log_analysis_start tr stamp u rid) = trace_id_counter tr + 1
   \<and> current_trace_id (log_analysis_start tr stamp u rid) \<noteq> None
   \<and> spans (log_analysis_start tr stamp u rid) = spans tr
   \<and> current_trace_id (log_analysis_complete tr rid total_duration st) = None
   \<and> trace_id_counter (log_analysis_complete tr rid total_duration st) = trace_id_counter tr
   \<and> spans (log_analysis_complete tr rid total_duration st) = spans tr"
proof -
  have t: "tracer (fst (analyze_website e agents w u)) = tracer w"
    by (auto simp: analyze_website_def Let_def
        split: sum.splits prod.splits option.splits fault.splits)
  have s: "trace_id_counter (log_analysis_start tr stamp u rid) = trace_id_counter tr + 1"
    "current_trace_id (log_analysis_start tr stamp u rid) \<noteq> None"
    "spans (log_analysis_start tr stamp u rid) = spans tr"
    by (simp_all add: log_analysis_start_def start_trace_def generate_trace_id_def)
  have c: "current_trace_id (log_analysis_complete tr rid total_duration st) = None"
    "trace_id_counter (log_analysis_complete tr rid total_duration st) = trace_id_counter tr"
    "spans (log_analysis_complete tr rid total_duration st) = spans tr"
    by (simp_all add: log_analysis_complete_def end_trace_def)
  from t s c show ?thesis by simp
qed

theorem run_leaves_tracer_witness:
  "tracer (fst (analyze_website env_worker_fault ANALYSIS_AGENTS world0 ''https://example.com''))
     = tracer world0
   \<and> trace_id_counter (log_analysis_start (tracer world0) ''20260101120000''
        ''https://example.com'' ''ab12cd34'') = 1"
proof -
  note t = run_leaves_tracer [of env_worker_fault ANALYSIS_AGENTS world0 "''https://example.com''"
      "tracer world0" "''20260101120000''" "''ab12cd34''"]
  from t [THEN conjunct1]
    t [THEN conjunct2, THEN conjunct2, THEN conjunct2, THEN conjunct2, THEN conjunct1]
  show ?thesis by (simp add: world0_def)
qed

text \<open>
  The claim as stated fails on a run that returns its result with one agent failing: no
  trace has been opened and no span recorded, fewer than the five agents and the report
  would need.
\<close>

theorem run_leaves_tracer_counterexample:
  "\<not> isl (snd (analyze_website env_worker_fault ANALYSIS_AGENTS world0 ''https://example.com''))
   \<and> trace_id_counter (tracer (fst (analyze_website env_worker_fault ANALYSIS_AGENTS world0
        ''https://example.com''))) = trace_id_counter (tracer world0)
   \<and> length (spans (tracer (fst (analyze_website env_worker_fault ANALYSIS_AGENTS world0
        ''https://example.com'')))) < length ANALYSIS_AGENTS + 1"
  by code_simp

subsection \<open>The URL in the agents' prompts\<close>

lemma try_block_calls:
  assumes tb: "try_block e agents d ar0 sid = (d2, ar, f)"
  shows "\<exists>calls. runner_calls d2 = runner_calls d @ calls
    \<and> (calls = [] \<or> calls = make_tasks (url ar0) sid agents \<or>
       (\<exists>p. calls = make_tasks (url ar0) sid agents @
                [(''report_agent'', p, sid @ ''_report_agent'')]))
    \<and> (log_fault e ''orchestrator'' ''parallel_analysis_start'' = None \<longrightarrow>
         take (length agents) calls = make_tasks (url ar0) sid agents)"
proof -
  let ?rid = "request_id ar0"
  let ?rn = "init_runners agents"
  let ?tasks = "make_tasks (url ar0) sid agents"
  have sub: "set agents \<subseteq> set ?rn" by (auto simp: init_runners_def)
  show ?thesis
  proof (cases "log_agent_action e d ?rid ''orchestrator'' ''parallel_analysis_start''
                  (Some (UrlDetail (url ar0))) None")
    case (Inl m)
    then have "log_fault e ''orchestrator'' ''parallel_analysis_start'' \<noteq> None"
      by (auto simp: log_agent_action_def split: option.splits)
    moreover from tb Inl have "d2 = d" by (auto simp: try_block_def Let_def)
    ultimately show ?thesis by (intro exI [of _ "[]"]) auto
  next
    case (Inr d1)
    note f1 = log_agent_action_frame [OF Inr]
    obtain dp results where rp: "run_parallel_analysis e ?rn agents d1 (url ar0) ?rid sid = (dp, results)"
      by (cases "run_parallel_analysis e ?rn agents d1 (url ar0) ?rid sid")
    from run_parallel_calls [OF rp sub] f1
    have cp: "runner_calls dp = runner_calls d @ ?tasks" by simp
    have ne: "length ?tasks = length agents" by (simp add: make_tasks_def)
    let ?ar1 = "ar0\<lparr>agent_results := results\<rparr>"
    show ?thesis
    proof (cases "log_agent_action e dp ?rid ''orchestrator'' ''report_generation_start'' None None")
      case (Inl m)
      with tb Inr rp have "d2 = dp" by (auto simp: try_block_def Let_def)
      with cp ne show ?thesis by (intro exI [of _ ?tasks]) simp
    next
      case l2: (Inr d3)
      note f3 = log_agent_action_frame [OF l2]
      obtain d4 out where gr: "generate_report e ?rn d3 (url ar0) results ?rid sid = (d4, out)"
        by (cases "generate_report e ?rn d3 (url ar0) results ?rid sid")
      let ?p = "report_prompt (url ar0) results"
      from gr run_agent_calls [of e ?rn d3 "''report_agent''" ?p "sid @ ''_report_agent''" ?rid]
      have "runner_calls d4 = runner_calls d3 @ [(''report_agent'', ?p, sid @ ''_report_agent'')]"
        by (simp add: generate_report_def init_runners_def)
      with cp f3 have c4: "runner_calls d4 =
          runner_calls d @ (?tasks @ [(''report_agent'', ?p, sid @ ''_report_agent'')])"
        by simp
      have "runner_calls d2 = runner_calls d4"
      proof (cases out)
        case (Inl m)
        with tb Inr rp l2 gr show ?thesis by (simp add: try_block_def Let_def)
      next
        case rep: (Inr report_result)
        obtain ar2 pf where br: "(if success report_result
                                then report_succeeded e ?ar1 report_result
                                else (report_failed ?ar1, None)) = (ar2, pf)"
          by (cases "(if success report_result
                                then report_succeeded e ?ar1 report_result
                                else (report_failed ?ar1, None))")
        show ?thesis
        proof (cases pf)
          case (Some m)
          with tb Inr rp l2 gr rep br show ?thesis by (auto simp: try_block_def Let_def)
        next
          case None
          let ?ar3 = "ar2\<lparr>total_duration_ms := millis (run_t0 e) (run_t1 e)\<rparr>"
          show ?thesis
          proof (cases "update_request_status e d4 ?rid (status ?ar3) (Some (summary_of ?ar3))
                          (final_report ?ar3) None")
            case (Inl m)
            with tb Inr rp l2 gr rep br None show ?thesis
              by (auto simp: try_block_def Let_def)
          next
            case u: (Inr q)
            obtain d5 b where q: "q = (d5, b)" by (cases q)
            from tb Inr rp l2 gr rep br None u q have "d2 = d5"
              by (simp add: try_block_def Let_def)
            with update_request_status_calls [OF u [unfolded q]] show ?thesis by simp
          qed
        qed
      qed
      with c4 ne show ?thesis
        by (intro exI [of _ "?tasks @ [(''report_agent'', ?p, sid @ ''_report_agent'')]"]) simp
    qed
  qed
qed

lemma analyze_website_calls:
  "\<exists>calls.
     runner_calls (db (fst (analyze_website e agents w u))) = runner_calls (db w) @ calls
     \<and> (calls = [] \<or> calls = make_tasks u (''seo_session_'' @ uuid8 e) agents \<or>
        (\<exists>p. calls = make_tasks u (''seo_session_'' @ uuid8 e) agents @
                 [(''report_agent'', p, (''seo_session_'' @ uuid8 e) @ ''_report_agent'')]))
     \<and> (create_fault e = None \<and> uuid8 e \<notin> set (map fst (analysis_requests (db w))) \<and>
        update_fault e ''analyzing'' = None \<and>
        (\<forall>s \<in> set (session_ids (''seo_session_'' @ uuid8 e) agents). session_fault e s = None) \<and>
        log_fault e ''orchestrator'' ''parallel_analysis_start'' = None \<longrightarrow>
        take (length agents) calls = make_tasks u (''seo_session_'' @ uuid8 e) agents)"
proof (cases "create_analysis_request e (db w) u")
  case (Inl m)
  then have "analyze_website e agents w u = (w, Inl (Exception m))"
    by (simp add: analyze_website_def)
  moreover from create_request_raises [OF Inl]
  have "create_fault e \<noteq> None \<or> uuid8 e \<in> set (map fst (analysis_requests (db w)))" by auto
  ultimately show ?thesis by (intro exI [of _ "[]"]) auto
next
  case (Inr p)
  obtain d0 rid where p: "p = (d0, rid)" by (cases p)
  note c = Inr [unfolded p]
  from create_request_facts [OF c] have rid: "rid = uuid8 e"
    and c0: "runner_calls d0 = runner_calls (db w)" by simp_all
  show ?thesis
  proof (cases "update_request_status e d0 rid ''analyzing'' None None None")
    case (Inl m)
    with c have "analyze_website e agents w u = (w\<lparr>db := d0\<rparr>, Inl (Exception m))"
      by (simp add: analyze_website_def)
    moreover from Inl have "update_fault e ''analyzing'' \<noteq> None"
      by (simp add: update_request_status_raises)
    ultimately show ?thesis using c0 by (intro exI [of _ "[]"]) auto
  next
    case a: (Inr q)
    obtain d1 b where q: "q = (d1, b)" by (cases q)
    note a = a [unfolded q]
    from update_request_status_calls [OF a] c0
    have c1: "runner_calls d1 = runner_calls (db w)" by simp
    obtain ss sf where s: "create_sessions e (sessions w)
        (session_ids (''seo_session_'' @ rid) agents) = (ss, sf)"
      by (cases "create_sessions e (sessions w) (session_ids (''seo_session_'' @ rid) agents)")
    show ?thesis
    proof (cases sf)
      case (Some f)
      with c a s have "analyze_website e agents w u = (w\<lparr>db := d1, sessions := ss\<rparr>, Inl f)"
        by (simp add: analyze_website_def)
      moreover have "\<not> (\<forall>s \<in> set (session_ids (''seo_session_'' @ uuid8 e) agents).
          session_fault e s = None)"
      proof
        assume "\<forall>s \<in> set (session_ids (''seo_session_'' @ uuid8 e) agents). session_fault e s = None"
        from create_sessions_ok [OF this, of "sessions w"] s Some rid show False by simp
      qed
      ultimately show ?thesis using c1 by (intro exI [of _ "[]"]) auto
    next
      case None
      note s = s [unfolded None]
      obtain d2 ar f where t: "try_block e agents d1 (initial_result u rid)
          (''seo_session_'' @ rid) = (d2, ar, f)"
        by (cases "try_block e agents d1 (initial_result u rid) (''seo_session_'' @ rid)")
      have rq: "url (initial_result u rid) = u" by (simp add: initial_result_def)
      from try_block_calls [OF t, unfolded rq] c1 rid obtain calls where
        k: "runner_calls d2 = runner_calls (db w) @ calls"
          "calls = [] \<or> calls = make_tasks u (''seo_session_'' @ uuid8 e) agents \<or>
           (\<exists>p. calls = make_tasks u (''seo_session_'' @ uuid8 e) agents @
                 [(''report_agent'', p, (''seo_session_'' @ uuid8 e) @ ''_report_agent'')])"
          "log_fault e ''orchestrator'' ''parallel_analysis_start'' = None \<longrightarrow>
             take (length agents) calls = make_tasks u (''seo_session_'' @ uuid8 e) agents"
        by auto
      have "runner_calls (db (fst (analyze_website e agents w u))) = runner_calls d2"
      proof (cases "\<exists>msg. f = Some (Exception msg)")
        case False
        with analyze_website_unfold [OF c a s t] show ?thesis
          by (auto split: option.splits fault.splits)
      next
        case True
        then obtain msg where f: "f = Some (Exception msg)" by blast
        show ?thesis
        proof (cases "update_request_status e d2 rid ''failed'' None None (Some msg)")
          case (Inl m)
          with analyze_website_unfold [OF c a s t] f show ?thesis by simp
        next
          case uf: (Inr q3)
          obtain d3 b3 where q3: "q3 = (d3, b3)" by (cases q3)
          from update_request_status_calls [OF uf [unfolded q3]]
            analyze_website_unfold [OF c a s t] f uf q3
          show ?thesis by simp
        qed
      qed
      with k show ?thesis by (intro exI [of _ calls]) simp
    qed
  qed
qed

lemma run_analysis_world:
  "fst (run_analysis e agents w store rid u) =
     (if map_of store rid = None \<or> ctor_fault e \<noteq> None then w
      else fst (analyze_website e agents w u))"
  by (auto simp: run_analysis_def Let_def split: option.splits sum.splits prod.splits fault.splits)

text \<open>
  Claim C9, as amended. For the target \<open>example.com\<close> submitted to the API, the request
  model turns the URL into \<open>https://example.com\<close> before the background task runs, and
  every invocation of an analysis agent in that run is given the prompt of that agent
  for \<open>https://example.com\<close>; when the run reaches the parallel stage (the orchestrator
  is constructed, the store accepts the request, the write of \<open>analyzing\<close> and the
  first log entry, and the sessions can be created), the five agents are invoked with
  the five prompts written out below, which embed \<open>https://example.com\<close>. The
  orchestrator itself does not normalise the URL: in a run of \<open>analyze_website\<close> on any
  URL, every invocation of an analysis agent is given the prompt of that agent for the
  URL as it was passed.
\<close>

theorem api_prompts_embed_normalized_url:
  assumes "start_analysis store new_id ''example.com'' = (store', rid, u)"
    and "run_analysis e ANALYSIS_AGENTS w store' rid u = (w', out)"
  shows "u = ''https://example.com''
   \<and> (\<exists>calls.
        runner_calls (db w') = runner_calls (db w) @ calls
        \<and> (\<forall>(name, prompt, sid) \<in> set calls.
              name \<in> set ANALYSIS_AGENTS \<longrightarrow> prompt = agent_prompt ''https://example.com'' name)
        \<and> (ctor_fault e = None \<and> create_fault e = None \<and>
           uuid8 e \<notin> set (map fst (analysis_requests (db w))) \<and>
           update_fault e ''analyzing'' = None \<and>
           (\<forall>s \<in> set (session_ids (''seo_session_'' @ uuid8 e) ANALYSIS_AGENTS).
              session_fault e s = None) \<and>
           log_fault e ''orchestrator'' ''parallel_analysis_start'' = None \<longrightarrow>
           take 5 calls =
             [(''security_agent'',
               ''Analyze the security of this website: https://example.com. Check HTTPS, SSL, and security headers.'',
               ''seo_session_'' @ uuid8 e @ ''_security_agent''),
              (''onpage_agent'',
               ''Analyze the on-page SEO of this website: https://example.com. Check title, meta description, headings, and images.'',
               ''seo_session_'' @ uuid8 e @ ''_onpage_agent''),
              (''content_agent'',
               ''Analyze the content quality of this website: https://example.com. Check word count and internal linking.'',
               ''seo_session_'' @ uuid8 e @ ''_content_agent''),
              (''performance_agent'',
               ''Analyze the performance of this website: https://example.com. Check page speed and mobile-friendliness.'',
               ''seo_session_'' @ uuid8 e @ ''_performance_agent''),
              (''indexability_agent'',
               ''Analyze the indexability of this website: https://example.com. Check robots.txt, sitemap, and meta robots.'',
               ''seo_session_'' @ uuid8 e @ ''_indexability_agent'')]))
   \<and> (\<forall>v. \<exists>calls.
        runner_calls (db (fst (analyze_website e ANALYSIS_AGENTS w v))) = runner_calls (db w) @ calls
        \<and> (\<forall>(name, prompt, sid) \<in> set calls.
              name \<in> set ANALYSIS_AGENTS \<longrightarrow> prompt = agent_prompt v name))"
proof -
  let ?sid = "''seo_session_'' @ uuid8 e"
  let ?T = "make_tasks u ?sid ANALYSIS_AGENTS"
  have v: "validate_url ''example.com'' = ''https://example.com''"
    by (simp add: validate_url_def has_scheme_def startswith_def)
  from assms(1) have u: "u = ''https://example.com''"
    and entry: "map_of store' rid \<noteq> None"
    by (auto simp: start_analysis_def Let_def v update_conv')
  have five: "length ANALYSIS_AGENTS = 5" by (simp add: ANALYSIS_AGENTS_def)
  have tasks: "?T =
             [(''security_agent'',
               ''Analyze the security of this website: https://example.com. Check HTTPS, SSL, and security headers.'',
               ''seo_session_'' @ uuid8 e @ ''_security_agent''),
              (''onpage_agent'',
               ''Analyze the on-page SEO of this website: https://example.com. Check title, meta description, headings, and images.'',
               ''seo_session_'' @ uuid8 e @ ''_onpage_agent''),
              (''content_agent'',
               ''Analyze the content quality of this website: https://example.com. Check word count and internal linking.'',
               ''seo_session_'' @ uuid8 e @ ''_content_agent''),
              (''performance_agent'',
               ''Analyze the performance of this website: https://example.com. Check page speed and mobile-friendliness.'',
               ''seo_session_'' @ uuid8 e @ ''_performance_agent''),
              (''indexability_agent'',
               ''Analyze the indexability of this website: https://example.com. Check robots.txt, sitemap, and meta robots.'',
               ''seo_session_'' @ uuid8 e @ ''_indexability_agent'')]"
    unfolding u by (simp add: make_tasks_def ANALYSIS_AGENTS_def agent_prompt_def)
  have inT: "\<forall>(name, prompt, sid) \<in> set ?T. prompt = agent_prompt ''https://example.com'' name"
    unfolding u by (auto simp: make_tasks_def)
  have rep: "''report_agent'' \<notin> set ANALYSIS_AGENTS" by (simp add: ANALYSIS_AGENTS_def)
  have orch: "\<forall>v. \<exists>calls.
        runner_calls (db (fst (analyze_website e ANALYSIS_AGENTS w v))) = runner_calls (db w) @ calls
        \<and> (\<forall>(name, prompt, sid) \<in> set calls.
              name \<in> set ANALYSIS_AGENTS \<longrightarrow> prompt = agent_prompt v name)"
  proof
    fix v
    from analyze_website_calls [of e ANALYSIS_AGENTS w v] obtain calls where
      k: "runner_calls (db (fst (analyze_website e ANALYSIS_AGENTS w v))) =
            runner_calls (db w) @ calls"
        "calls = [] \<or> calls = make_tasks v ?sid ANALYSIS_AGENTS \<or>
          (\<exists>p. calls = make_tasks v ?sid ANALYSIS_AGENTS @
                  [(''report_agent'', p, ?sid @ ''_report_agent'')])"
      by blast
    have "\<forall>(name, prompt, sid) \<in> set (make_tasks v ?sid ANALYSIS_AGENTS).
        prompt = agent_prompt v name"
      by (auto simp: make_tasks_def)
    with k(2) rep have "\<forall>(name, prompt, sid) \<in> set calls.
        name \<in> set ANALYSIS_AGENTS \<longrightarrow> prompt = agent_prompt v name"
      by auto
    with k(1) show "\<exists>calls.
        runner_calls (db (fst (analyze_website e ANALYSIS_AGENTS w v))) = runner_calls (db w) @ calls
        \<and> (\<forall>(name, prompt, sid) \<in> set calls.
              name \<in> set ANALYSIS_AGENTS \<longrightarrow> prompt = agent_prompt v name)"
      by blast
  qed
  from assms(2) run_analysis_world [of e ANALYSIS_AGENTS w store' rid u] entry
  have w': "w' = (if ctor_fault e \<noteq> None then w else fst (analyze_website e ANALYSIS_AGENTS w u))"
    by simp
  show ?thesis
  proof (cases "ctor_fault e")
    case (Some m)
    with w' u have "\<exists>calls.
        runner_calls (db w') = runner_calls (db w) @ calls
        \<and> (\<forall>(name, prompt, sid) \<in> set calls.
              name \<in> set ANALYSIS_AGENTS \<longrightarrow> prompt = agent_prompt ''https://example.com'' name)
        \<and> (ctor_fault e = None \<and> create_fault e = None \<and>
           uuid8 e \<notin> set (map fst (analysis_requests (db w))) \<and>
           update_fault e ''analyzing'' = None \<and>
           (\<forall>s \<in> set (session_ids (''seo_session_'' @ uuid8 e) ANALYSIS_AGENTS).
              session_fault e s = None) \<and>
           log_fault e ''orchestrator'' ''parallel_analysis_start'' = None \<longrightarrow>
           take 5 calls = ?T)"
      by (intro exI [of _ "[]"]) simp
    with u orch show ?thesis unfolding tasks by (intro conjI)
  next
    case None
    with w' have w'': "w' = fst (analyze_website e ANALYSIS_AGENTS w u)" by simp
    from analyze_website_calls [of e ANALYSIS_AGENTS w u] obtain calls where
      k: "runner_calls (db w') = runner_calls (db w) @ calls"
        "calls = [] \<or> calls = ?T \<or>
          (\<exists>p. calls = ?T @ [(''report_agent'', p, ?sid @ ''_report_agent'')])"
        "create_fault e = None \<and> uuid8 e \<notin> set (map fst (analysis_requests (db w))) \<and>
          update_fault e ''analyzing'' = None \<and>
          (\<forall>s \<in> set (session_ids ?sid ANALYSIS_AGENTS). session_fault e s = None) \<and>
          log_fault e ''orchestrator'' ''parallel_analysis_start'' = None \<longrightarrow>
          take (length ANALYSIS_AGENTS) calls = ?T"
      unfolding w'' by blast
    from k(2) inT rep have all: "\<forall>(name, prompt, sid) \<in> set calls.
        name \<in> set ANALYSIS_AGENTS \<longrightarrow> prompt = agent_prompt ''https://example.com'' name"
      by auto
    from k(3) have reach: "ctor_fault e = None \<and> create_fault e = None \<and>
           uuid8 e \<notin> set (map fst (analysis_requests (db w))) \<and>
           update_fault e ''analyzing'' = None \<and>
           (\<forall>s \<in> set (session_ids ?sid ANALYSIS_AGENTS). session_fault e s = None) \<and>
           log_fault e ''orchestrator'' ''parallel_analysis_start'' = None \<longrightarrow>
           take 5 calls = ?T"
      unfolding five by blast
    from k(1) all reach have "\<exists>calls.
        runner_calls (db w') = runner_calls (db w) @ calls
        \<and> (\<forall>(name, prompt, sid) \<in> set calls.
              name \<in> set ANALYSIS_AGENTS \<longrightarrow> prompt = agent_prompt ''https://example.com'' name)
        \<and> (ctor_fault e = None \<and> create_fault e = None \<and>
           uuid8 e \<notin> set (map fst (analysis_requests (db w))) \<and>
           update_fault e ''analyzing'' = None \<and>
           (\<forall>s \<in> set (session_ids (''seo_session_'' @ uuid8 e) ANALYSIS_AGENTS).
              session_fault e s = None) \<and>
           log_fault e ''orchestrator'' ''parallel_analysis_start'' = None \<longrightarrow>
           take 5 calls = ?T)"
      by (intro exI [of _ calls] conjI)
    with u orch show ?thesis unfolding tasks by (intro conjI)
  qed
qed

theorem api_prompts_embed_normalized_url_witness:
  "runner_calls (db (fst (run_analysis env_quiet ANALYSIS_AGENTS world0
       (fst (start_analysis [] ''r1'' ''example.com'')) ''r1'' ''https://example.com''))) ! 3 =
     (''performance_agent'',
      ''Analyze the performance of this website: https://example.com. Check page speed and mobile-friendliness.'',
      ''seo_session_ab12cd34_performance_agent'')"
proof -
  let ?store = "fst (start_analysis [] ''r1'' ''example.com'')"
  let ?run = "run_analysis env_quiet ANALYSIS_AGENTS world0 ?store ''r1'' ''https://example.com''"
  have s: "start_analysis [] ''r1'' ''example.com'' = (?store, ''r1'', ''https://example.com'')"
    by (simp add: start_analysis_def Let_def validate_url_def has_scheme_def startswith_def)
  have r: "?run = (fst ?run, snd ?run)" by simp
  have h: "ctor_fault env_quiet = None \<and> create_fault env_quiet = None \<and>
           uuid8 env_quiet \<notin> set (map fst (analysis_requests (db world0))) \<and>
           update_fault env_quiet ''analyzing'' = None \<and>
           (\<forall>s \<in> set (session_ids (''seo_session_'' @ uuid8 env_quiet) ANALYSIS_AGENTS).
              session_fault env_quiet s = None) \<and>
           log_fault env_quiet ''orchestrator'' ''parallel_analysis_start'' = None"
    by (simp add: env_quiet_def world0_def)
  from api_prompts_embed_normalized_url [OF s r, THEN conjunct2, THEN conjunct1] h
  obtain calls where
    1: "runner_calls (db (fst ?run)) = runner_calls (db world0) @ calls"
    and 2: "take 5 calls =
             [(''security_agent'',
               ''Analyze the security of this website: https://example.com. Check HTTPS, SSL, and security headers.'',
               ''seo_session_'' @ uuid8 env_quiet @ ''_security_agent''),
              (''onpage_agent'',
               ''Analyze the on-page SEO of this website: https://example.com. Check title, meta description, headings, and images.'',
               ''seo_session_'' @ uuid8 env_quiet @ ''_onpage_agent''),
              (''content_agent'',
               ''Analyze the content quality of this website: https://example.com. Check word count and internal linking.'',
               ''seo_session_'' @ uuid8 env_quiet @ ''_content_agent''),
              (''performance_agent'',
               ''Analyze the performance of this website: https://example.com. Check page speed and mobile-friendliness.'',
               ''seo_session_'' @ uuid8 env_quiet @ ''_performance_agent''),
              (''indexability_agent'',
               ''Analyze the indexability of this website: https://example.com. Check robots.txt, sitemap, and meta robots.'',
               ''seo_session_'' @ uuid8 env_quiet @ ''_indexability_agent'')]"
    by blast
  have "calls ! 3 = take 5 calls ! 3" by simp
  also have "\<dots> = (''performance_agent'',
      ''Analyze the performance of this website: https://example.com. Check page speed and mobile-friendliness.'',
      ''seo_session_ab12cd34_performance_agent'')"
    unfolding 2 by (simp add: env_quiet_def)
  finally have "calls ! 3 = (''performance_agent'',
      ''Analyze the performance of this website: https://example.com. Check page speed and mobile-friendliness.'',
      ''seo_session_ab12cd34_performance_agent'')" .
  moreover from 1 have "runner_calls (db (fst ?run)) = calls" by (simp add: world0_def)
  ultimately show ?thesis by simp
qed

text \<open>
  The claim as stated fails when the target does not come through the API: the
  orchestrator, called with \<open>example.com\<close> by the command line or through \<open>analyze_url\<close>,
  builds the five prompts with the bare host.
\<close>

theorem bare_host_in_prompts_counterexample:
  "take 5 (runner_calls (db (fst (analyze_website env_quiet ANALYSIS_AGENTS world0
       ''example.com'')))) =
     [(''security_agent'',
       ''Analyze the security of this website: example.com. Check HTTPS, SSL, and security headers.'',
       ''seo_session_ab12cd34_security_agent''),
      (''onpage_agent'',
       ''Analyze the on-page SEO of this website: example.com. Check title, meta description, headings, and images.'',
       ''seo_session_ab12cd34_onpage_agent''),
      (''content_agent'',
       ''Analyze the content quality of this website: example.com. Check word count and internal linking.'',
       ''seo_session_ab12cd34_content_agent''),
      (''performance_agent'',
       ''Analyze the performance of this website: example.com. Check page speed and mobile-friendliness.'',
       ''seo_session_ab12cd34_performance_agent''),
      (''indexability_agent'',
       ''Analyze the indexability of this website: example.com. Check robots.txt, sitemap, and meta robots.'',
       ''seo_session_ab12cd34_indexability_agent'')]
   \<and> runner_calls (db (fst (analyze_url env_quiet ANALYSIS_AGENTS world0 ''example.com''))) ! 3 =
     (''performance_agent'',
      ''Analyze the performance of this website: example.com. Check page speed and mobile-friendliness.'',
      ''seo_session_ab12cd34_performance_agent'')"
  by code_simp

end
